theory Spec2Isabelle
  imports Main "HOL-Library.Word" "HOL-Library.Signed_Division"
begin

section \<open>Errors\<close>

text \<open>
  The error values that \<^verbatim>\<open>scaletest/trafficgen/run.go\<close> tells apart: \<^verbatim>\<open>io.EOF\<close>,
  \<^verbatim>\<open>context.DeadlineExceeded\<close>, \<^verbatim>\<open>context.Canceled\<close>, any other failure of the
  stream or of a collaborator, and an error wrapped by \<^verbatim>\<open>xerrors.Errorf("msg: %w", err)\<close>.
\<close>

datatype error = EOF | DeadlineExceeded | Canceled | Failure string | Errorf string error

text \<open>\<^verbatim>\<open>xerrors.Is(err, target)\<close>: the target is \<^verbatim>\<open>err\<close> or is wrapped somewhere in it.\<close>

fun Is :: "error \<Rightarrow> error \<Rightarrow> bool" where
  "Is (Errorf msg e) target = (Errorf msg e = target \<or> Is e target)"
| "Is e target = (e = target)"

section \<open>countReadWriter (run.go, lines 223-259)\<close>

text \<open>
  The two \<^verbatim>\<open>atomic.Int64\<close> counters. The embedded \<^verbatim>\<open>io.ReadWriter\<close> and the context are
  the environment of a call: an \<open>io_answer\<close> says what one call of \<^verbatim>\<open>Read\<close> or
  \<^verbatim>\<open>Write\<close> met. \<open>CtxErr e\<close>: \<^verbatim>\<open>w.ctx.Err()\<close> was the non-nil \<open>e\<close>.
  \<open>Stream n err\<close>: \<^verbatim>\<open>w.ctx.Err()\<close> was nil and the wrapped stream returned \<open>(n, err)\<close>.
\<close>

record countReadWriter =
  bytesRead :: "64 word"
  bytesWritten :: "64 word"

datatype io_answer = CtxErr error | Stream int "error option"

definition Read :: "countReadWriter \<Rightarrow> io_answer \<Rightarrow> countReadWriter \<times> int \<times> error option" where
  "Read w a = (case a of
      CtxErr e \<Rightarrow> (w, 0, Some e)
    | Stream n err \<Rightarrow>
        ((if err = None then w\<lparr>bytesRead := bytesRead w + word_of_int n\<rparr> else w), n, err))"

definition Write :: "countReadWriter \<Rightarrow> io_answer \<Rightarrow> countReadWriter \<times> int \<times> error option" where
  "Write w a = (case a of
      CtxErr e \<Rightarrow> (w, 0, Some e)
    | Stream n err \<Rightarrow>
        ((if err = None then w\<lparr>bytesWritten := bytesWritten w + word_of_int n\<rparr> else w), n, err))"

definition BytesRead :: "countReadWriter \<Rightarrow> 64 word" where
  "BytesRead w = bytesRead w"

definition BytesWritten :: "countReadWriter \<Rightarrow> 64 word" where
  "BytesWritten w = bytesWritten w"

text \<open>The meter as \<^verbatim>\<open>Run\<close> creates it (line 83): both counters zero.\<close>

definition new_crw :: countReadWriter where
  "new_crw = \<lparr>bytesRead = 0, bytesWritten = 0\<rparr>"

subsection \<open>Histories of calls\<close>

text \<open>
  The counters are changed by atomic adds only, so the calls of the reader task and of the
  writer task take effect in some order: a history is one interleaving of them.
  \<open>read_total\<close> and \<open>write_total\<close> add up what the calls returned, over the calls
  that returned a nil error.
\<close>

datatype rw_call = ReadCall io_answer | WriteCall io_answer

fun do_call :: "countReadWriter \<Rightarrow> rw_call \<Rightarrow> countReadWriter \<times> int \<times> error option" where
  "do_call w (ReadCall a) = Read w a"
| "do_call w (WriteCall a) = Write w a"

fun run_calls :: "countReadWriter \<Rightarrow> rw_call list \<Rightarrow> countReadWriter" where
  "run_calls w [] = w"
| "run_calls w (c # cs) = run_calls (fst (do_call w c)) cs"

fun is_read :: "rw_call \<Rightarrow> bool" where
  "is_read (ReadCall a) = True"
| "is_read (WriteCall a) = False"

definition returned_ok :: "countReadWriter \<Rightarrow> rw_call \<Rightarrow> int" where
  "returned_ok w c = (case do_call w c of (w', n, err) \<Rightarrow> if err = None then n else 0)"

fun read_total :: "countReadWriter \<Rightarrow> rw_call list \<Rightarrow> int" where
  "read_total w [] = 0"
| "read_total w (c # cs) =
     (if is_read c then returned_ok w c else 0) + read_total (fst (do_call w c)) cs"

fun write_total :: "countReadWriter \<Rightarrow> rw_call list \<Rightarrow> int" where
  "write_total w [] = 0"
| "write_total w (c # cs) =
     (if is_read c then 0 else returned_ok w c) + write_total (fst (do_call w c)) cs"

text \<open>The contract of \<^verbatim>\<open>io.Reader\<close> and \<^verbatim>\<open>io.Writer\<close>: a call returns \<open>0 \<le> n\<close>.\<close>

fun answer_of :: "rw_call \<Rightarrow> io_answer" where
  "answer_of (ReadCall a) = a"
| "answer_of (WriteCall a) = a"

fun nonneg_answer :: "io_answer \<Rightarrow> bool" where
  "nonneg_answer (CtxErr e) = True"
| "nonneg_answer (Stream n err) = (0 \<le> n)"

definition io_contract :: "rw_call list \<Rightarrow> bool" where
  "io_contract cs = list_all (\<lambda>c. nonneg_answer (answer_of c)) cs"


section \<open>The environment of a task\<close>

text \<open>
  A task of \<^verbatim>\<open>Run\<close> either has not returned on the timeline it is given (it is blocked
  in a select, a channel operation or a call of the stream), has returned, or has panicked.
\<close>

datatype 'a outcome = Blocked | Returned 'a | Panicked error

text \<open>
  The deadline context, as the code sees it: \<^verbatim>\<open>ctx.Err()\<close> is \<open>None\<close> while the
  context is live and \<^verbatim>\<open>ctx.Done()\<close> is ready exactly when it is not \<open>None\<close>. The
  first cancellation (\<open>DeadlineExceeded\<close> from the timer, \<open>Canceled\<close> from the
  caller's context) stays.
\<close>

definition cancel :: "error option \<Rightarrow> error \<Rightarrow> error option" where
  "cancel c e = (case c of None \<Rightarrow> Some e | Some e0 \<Rightarrow> Some e0)"

section \<open>copyContext (run.go, lines 196-221)\<close>

text \<open>
  What happens while \<^verbatim>\<open>copyContext\<close> runs, in order: the context is cancelled
  (\<open>Fire\<close>), or the stream returns from the \<^verbatim>\<open>Write\<close> of the next byte
  (\<open>WriteRet n err\<close>). A timeline that ends before the loop does leaves the call blocked
  in a \<^verbatim>\<open>Write\<close> that never returns.
\<close>

datatype cev = Fire error | WriteRet int "error option"

text \<open>Lines 206-215: what \<^verbatim>\<open>copyContext\<close> returns when a \<^verbatim>\<open>Write\<close> fails.\<close>

definition write_failed :: "int \<Rightarrow> error \<Rightarrow> int \<times> error option" where
  "write_failed count e =
     (if Is e EOF then (count, None)
      else if Is e DeadlineExceeded then (count, None)
      else (count, Some e))"

text \<open>
  The loop \<^verbatim>\<open>for idx := range src\<close> of lines 204-218. \<^verbatim>\<open>dst\<close> is the
  \<^verbatim>\<open>countReadWriter\<close>, so every byte goes through \<open>Write\<close>, which looks at the
  context first.
\<close>

fun write_each ::
  "error option \<Rightarrow> countReadWriter \<Rightarrow> string \<Rightarrow> int \<Rightarrow> cev list
     \<Rightarrow> error option \<times> countReadWriter \<times> (int \<times> error option) option" where
  "write_each c w [] count evs = (c, w, Some (count, None))"
| "write_each c w (b # src) count evs =
     (case c of
        Some e \<Rightarrow>
          (case Write w (CtxErr e) of (w', n, err) \<Rightarrow>
             (case err of
                Some e' \<Rightarrow> (c, w', Some (write_failed count e'))
              | None \<Rightarrow> write_each c w' src (count + n) evs))
      | None \<Rightarrow>
          (case evs of
             [] \<Rightarrow> (c, w, None)
           | Fire e # evs' \<Rightarrow> write_each (Some e) w (b # src) count evs'
           | WriteRet n0 err0 # evs' \<Rightarrow>
               (case Write w (Stream n0 err0) of (w', n, err) \<Rightarrow>
                  (case err of
                     Some e' \<Rightarrow> (c, w', Some (write_failed count e'))
                   | None \<Rightarrow> write_each c w' src (count + n) evs'))))"

text \<open>
  The select of lines 200-203 has a default case: it returns at once when the context is
  done on entry, and otherwise runs the loop once and returns.
\<close>

definition copyContext ::
  "error option \<Rightarrow> countReadWriter \<Rightarrow> string \<Rightarrow> cev list
     \<Rightarrow> error option \<times> countReadWriter \<times> (int \<times> error option) option" where
  "copyContext c dst src evs =
     (if c \<noteq> None then (c, dst, Some (0, None)) else write_each c dst src 0 evs)"

section \<open>mustRandStr and writeRandomData (run.go, lines 176-194 and 261-267)\<close>

text \<open>
  \<^verbatim>\<open>cryptorand.String\<close>, \<^verbatim>\<open>codersdk.ReconnectingPTYRequest\<close> and
  \<^verbatim>\<open>json.Marshal\<close> are not part of \<^verbatim>\<open>run.go\<close>; the generator and the
  serialiser are parameters of the model. \<open>rand n\<close> is what one call
  \<^verbatim>\<open>cryptorand.String(n)\<close> returns; the writer's \<open>k\<close>-th call uses the generator
  \<open>gen k\<close>. The request carries the payload in its field \<^verbatim>\<open>Data\<close>.
\<close>

record ReconnectingPTYRequest =
  Data :: string

definition mustRandStr :: "(int \<Rightarrow> error + string) \<Rightarrow> 64 word \<Rightarrow> string outcome" where
  "mustRandStr rand len =
     (case rand (sint len) of Inl err \<Rightarrow> Panicked err | Inr randStr \<Rightarrow> Returned randStr)"

text \<open>
  What the writer's select (lines 178-181) sees, in order: the context is cancelled
  (\<open>CtxFire\<close>), the select takes the case \<^verbatim>\<open>ctx.Done()\<close> (\<open>SelDone\<close>, possible
  only once the context is done), or it takes a tick (\<open>SelTick\<close>, with what happens
  during the \<^verbatim>\<open>copyContext\<close> of that tick).
\<close>

datatype wev = CtxFire error | SelDone | SelTick "cev list"

text \<open>
  The state of the writer's loop: the context, the meter it writes through, and two
  fields of bookkeeping that the code does not have: the number of calls of the generator
  so far and the requests handed to the serialiser so far.
\<close>

record writer_state =
  ctx_err :: "error option"
  meter :: countReadWriter
  ticks :: nat
  requests :: "ReconnectingPTYRequest list"

fun writeRandomData ::
  "(nat \<Rightarrow> int \<Rightarrow> error + string) \<Rightarrow> (ReconnectingPTYRequest \<Rightarrow> error + string)
     \<Rightarrow> 64 word \<Rightarrow> writer_state \<Rightarrow> wev list \<Rightarrow> error option outcome \<times> writer_state" where
  "writeRandomData gen marshal sz st [] = (Blocked, st)"
| "writeRandomData gen marshal sz st (ev # evs) =
     (case ev of
        CtxFire e \<Rightarrow>
          writeRandomData gen marshal sz (st\<lparr>ctx_err := cancel (ctx_err st) e\<rparr>) evs
      | SelDone \<Rightarrow>
          (if ctx_err st = None then writeRandomData gen marshal sz st evs
           else (Returned None, st))
      | SelTick cevs \<Rightarrow>
          (case mustRandStr (gen (ticks st)) (sz - 1) of
             Panicked err \<Rightarrow> (Panicked err, st)
           | Blocked \<Rightarrow> (Blocked, st)
           | Returned randStr \<Rightarrow>
               (let payload = CHR ''#'' # randStr;
                    req = \<lparr>Data = payload\<rparr>;
                    st1 = st\<lparr>ticks := Suc (ticks st), requests := requests st @ [req]\<rparr>
                in case marshal req of
                     Inl err \<Rightarrow> (Returned (Some err), st1)
                   | Inr data \<Rightarrow>
                       (case copyContext (ctx_err st1) (meter st1) data cevs of (c, w, res) \<Rightarrow>
                          (let st2 = st1\<lparr>ctx_err := c, meter := w\<rparr>
                           in case res of
                                None \<Rightarrow> (Blocked, st2)
                              | Some (n, Some err) \<Rightarrow> (Returned (Some err), st2)
                              | Some (n, None) \<Rightarrow> writeRandomData gen marshal sz st2 evs)))))"

text \<open>The writer as \<^verbatim>\<open>Run\<close> starts it (line 110): live context, fresh meter.\<close>

definition new_writer :: writer_state where
  "new_writer = \<lparr>ctx_err = None, meter = new_crw, ticks = 0, requests = []\<rparr>"


subsection \<open>A generator and a serialiser to run the writer on\<close>

text \<open>
  Modelled from the spec: \<^verbatim>\<open>cryptorand.String\<close> is not in \<^verbatim>\<open>run.go\<close>; the spec
  describes it as the capability to produce N random printable bytes. \<open>rand_from src n\<close>
  draws the \<open>n\<close> characters from the supply \<open>src\<close> and fails when no string of the
  requested length exists (a negative length).
\<close>

definition rand_from :: "(nat \<Rightarrow> char) \<Rightarrow> int \<Rightarrow> error + string" where
  "rand_from src n =
     (if n < 0 then Inl (Failure ''cryptorand: negative length'')
      else Inr (map src [0..<nat n]))"

definition letters :: "nat \<Rightarrow> int \<Rightarrow> error + string" where
  "letters k = rand_from (\<lambda>i. CHR ''a'')"

text \<open>
  Modelled from the spec: \<^verbatim>\<open>codersdk.ReconnectingPTYRequest\<close> and its JSON encoding are
  not in \<^verbatim>\<open>run.go\<close>; the spec describes the wire payload as a structured object with
  one field, \<^verbatim>\<open>data\<close>, serialised as the object's textual encoding. \<open>json_frame\<close> is
  that text for a payload of \<^verbatim>\<open>#\<close>, letters and digits (no character to escape):
  an opening of 9 bytes, the payload, a closing of 2 bytes.
\<close>

definition json_frame :: "ReconnectingPTYRequest \<Rightarrow> error + string" where
  "json_frame req =
     Inr ([CHR ''{'', CHR 0x22] @ ''data'' @ [CHR 0x22, CHR '':'', CHR 0x22]
            @ Data req @ [CHR 0x22, CHR ''}''])"


section \<open>drainContext (run.go, lines 139-174)\<close>

text \<open>
  \<^verbatim>\<open>drainContext\<close> starts a goroutine that reads one byte at a time and offers the first
  error on \<^verbatim>\<open>errCh\<close>, and itself waits in a select on \<^verbatim>\<open>ctx.Done()\<close> and
  \<^verbatim>\<open>errCh\<close>. \<open>inner_pc\<close> is where the reading goroutine stands: before its
  allocation (line 144), at the top of its loop (line 147), inside \<^verbatim>\<open>io.CopyN\<close> after a
  read of zero bytes, blocked in the send of line 153, or gone.
\<close>

datatype inner_pc = IStart | ILoop | ICopy | ISend error | IGone

record drain_state =
  d_ctx :: "error option"
  d_meter :: countReadWriter
  inner :: inner_pc
  done_closed :: bool

text \<open>
  \<^verbatim>\<open>io.CopyN(buf, src, 1)\<close> with a \<^verbatim>\<open>bytes.Buffer\<close> as destination: one \<open>Read\<close> of
  the meter into a buffer of one byte. A byte read ends the copy with a nil error, whatever
  error came with it; no byte and no error makes \<^verbatim>\<open>Buffer.ReadFrom\<close> read again; no
  byte and an error ends the copy with that error; a negative count makes
  \<^verbatim>\<open>Buffer.ReadFrom\<close> panic. The first component of the result is the panic, if any.
\<close>

definition copy_one :: "drain_state \<Rightarrow> int \<Rightarrow> error option \<Rightarrow> error option \<times> drain_state" where
  "copy_one st n0 err0 =
     (case Read (d_meter st) (case d_ctx st of Some e \<Rightarrow> CtxErr e | None \<Rightarrow> Stream n0 err0) of
        (w, n, err) \<Rightarrow>
          if n < 0 then (Some (Failure ''bytes.Buffer: reader returned negative count from Read''),
                         st\<lparr>d_meter := w\<rparr>)
          else if 1 \<le> n then (None, st\<lparr>d_meter := w, inner := ILoop\<rparr>)
          else (case err of
                  None \<Rightarrow> (None, st\<lparr>d_meter := w, inner := ICopy\<rparr>)
                | Some e \<Rightarrow> (None, st\<lparr>d_meter := w, inner := ISend e\<rparr>)))"

text \<open>Lines 147-157: the non-blocking select on \<^verbatim>\<open>done\<close>, then the copy.\<close>

definition loop_top :: "drain_state \<Rightarrow> int \<Rightarrow> error option \<Rightarrow> error option \<times> drain_state" where
  "loop_top st n0 err0 =
     (if done_closed st then (None, st\<lparr>inner := IGone\<rparr>) else copy_one st n0 err0)"

text \<open>
  The largest size \<^verbatim>\<open>make([]byte, n)\<close> accepts: the runtime's \<^verbatim>\<open>maxAlloc\<close>, \<open>2 ^ 48\<close>
  bytes on 64-bit Linux.
\<close>

definition maxAlloc :: int where
  "maxAlloc = 2 ^ 48"

text \<open>
  One step of the reading goroutine; \<open>(n0, err0)\<close> is what the stream returns if the step
  reaches it. \<^verbatim>\<open>make([]byte, bufSize)\<close> panics on a negative size and on a size beyond
  \<open>maxAlloc\<close>; an allocation within the limit is taken to succeed.
\<close>

definition inner_step ::
  "64 word \<Rightarrow> drain_state \<Rightarrow> int \<Rightarrow> error option \<Rightarrow> error option \<times> drain_state" where
  "inner_step bufSize st n0 err0 =
     (case inner st of
        IStart \<Rightarrow>
          (if bufSize <s 0 \<or> maxAlloc < sint bufSize
           then (Some (Failure ''makeslice: len out of range''), st)
           else loop_top st n0 err0)
      | ILoop \<Rightarrow> loop_top st n0 err0
      | ICopy \<Rightarrow> copy_one st n0 err0
      | ISend e \<Rightarrow> (None, st)
      | IGone \<Rightarrow> (None, st))"

text \<open>
  What happens while \<^verbatim>\<open>drainContext\<close> runs, in order: the context is cancelled, the
  reading goroutine takes a step, or the select of lines 161-172 takes one of its two cases.
  A case that is not ready is not taken (the select keeps waiting); when both are ready Go
  takes either, so both events are possible then.
\<close>

datatype dev = DCtxFire error | DInner int "error option" | DSelDone | DSelErr

fun drainContext ::
  "64 word \<Rightarrow> drain_state \<Rightarrow> dev list \<Rightarrow> error option outcome \<times> drain_state" where
  "drainContext bufSize st [] = (Blocked, st)"
| "drainContext bufSize st (ev # evs) =
     (case ev of
        DCtxFire e \<Rightarrow> drainContext bufSize (st\<lparr>d_ctx := cancel (d_ctx st) e\<rparr>) evs
      | DInner n0 err0 \<Rightarrow>
          (case inner_step bufSize st n0 err0 of
             (Some p, st') \<Rightarrow> (Panicked p, st')
           | (None, st') \<Rightarrow> drainContext bufSize st' evs)
      | DSelDone \<Rightarrow>
          (if d_ctx st = None then drainContext bufSize st evs
           else (Returned None, st\<lparr>done_closed := True\<rparr>))
      | DSelErr \<Rightarrow>
          (case inner st of
             ISend err \<Rightarrow>
               (if Is err EOF then (Returned None, st\<lparr>inner := IGone\<rparr>)
                else (Returned (Some err), st\<lparr>inner := IGone\<rparr>))
           | _ \<Rightarrow> drainContext bufSize st evs))"

definition new_drain :: drain_state where
  "new_drain = \<lparr>d_ctx = None, d_meter = new_crw, inner = IStart, done_closed = False\<rparr>"

section \<open>Run (run.go, lines 41-132)\<close>

text \<open>
  \<^verbatim>\<open>Config\<close> is declared outside \<^verbatim>\<open>run.go\<close>; these are the fields \<^verbatim>\<open>Run\<close> reads,
  with the types its arithmetic gives them (\<^verbatim>\<open>int64\<close>, and \<^verbatim>\<open>time.Duration\<close> for the
  duration).
\<close>

record Config =
  AgentID :: string
  BytesPerSecond :: "64 word"
  Duration :: "64 word"
  TicksPerSecond :: "64 word"

text \<open>
  Line 56. Go's division of two \<^verbatim>\<open>int64\<close> truncates towards zero and wraps in its one
  case of overflow; \<^verbatim>\<open>Run\<close> panics when the divisor is 0.
\<close>

definition bytesPerTick :: "Config \<Rightarrow> 64 word" where
  "bytesPerTick cfg = word_of_int (sint (BytesPerSecond cfg) sdiv sint (TicksPerSecond cfg))"


text \<open>
  The collaborators of one run: what opening the session returns (\<open>None\<close>: a
  connection), the generator and the serialiser, and the timelines of the two tasks.
\<close>

record run_env =
  open_result :: "error option"
  env_gen :: "nat \<Rightarrow> int \<Rightarrow> error + string"
  env_marshal :: "ReconnectingPTYRequest \<Rightarrow> error + string"
  writer_events :: "wev list"
  reader_events :: "dev list"

text \<open>
  Lines 110 and 101: the calls the two goroutines make. Both go through the one meter of
  line 83; the writer changes only \<open>bytesWritten\<close> and the reader only \<open>bytesRead\<close>, so
  each task is run on a meter of its own.
\<close>

definition writer_task :: "run_env \<Rightarrow> Config \<Rightarrow> error option outcome" where
  "writer_task env cfg =
     fst (writeRandomData (env_gen env) (env_marshal env) (bytesPerTick cfg) new_writer
            (writer_events env))"

definition reader_task :: "run_env \<Rightarrow> Config \<Rightarrow> error option outcome" where
  "reader_task env cfg = fst (drainContext (bytesPerTick cfg * 2) new_drain (reader_events env))"

text \<open>
  \<^verbatim>\<open>Run\<close> is three goroutines (a fourth, lines 93-96, only logs). Each has a program
  counter; a schedule names the goroutine that takes the next step. The events of a run are
  recorded in order.
\<close>

datatype task = WriterTask | ReaderTask

datatype close_site = DeferredClose | ReaderClose

datatype event =
    ConnOpen
  | TaskReturned task "error option"
  | Received task
  | ConnClose close_site
  | LoadBytesWritten
  | LoadBytesRead
  | RunReturned "error option"

datatype main_pc =
    M_Start
  | M_WaitWriter
  | M_WaitReader
  | M_LoadWritten
  | M_LoadRead
  | M_Deferred "error option"
  | M_DeferredPanic
  | M_Returned "error option"
  | M_Panicked

datatype reader_pc = R_Idle | R_Drain | R_Send "error option" | R_Close | R_Gone

datatype writer_pc = W_Idle | W_Write | W_Send "error option" | W_Gone

datatype thread = MainT | ReaderT | WriterT

record run_state =
  mpc :: main_pc
  rpc :: reader_pc
  wpc :: writer_pc
  crashed :: bool
  trace :: "event list"

definition run_init :: run_state where
  "run_init = \<lparr>mpc = M_Start, rpc = R_Idle, wpc = W_Idle, crashed = False, trace = []\<rparr>"

text \<open>
  Lines 116-118: \<^verbatim>\<open>wch\<close> is unbuffered, so the writer's send and the receive of line 116
  are one step. A writer error makes \<^verbatim>\<open>Run\<close> return; the deferred functions run first.
\<close>

definition recv_writer :: "run_state \<Rightarrow> error option \<Rightarrow> run_state" where
  "recv_writer s wErr =
     s\<lparr>trace := trace s @ [Received WriterTask],
       wpc := W_Gone,
       mpc := (case wErr of
                 Some e \<Rightarrow> M_Deferred (Some (Errorf ''write to pty'' e))
               | None \<Rightarrow> M_WaitReader)\<rparr>"

text \<open>Lines 119-121, and line 101: after its send the reader goes on to line 103.\<close>

definition recv_reader :: "run_state \<Rightarrow> error option \<Rightarrow> run_state" where
  "recv_reader s rErr =
     s\<lparr>trace := trace s @ [Received ReaderTask],
       rpc := R_Close,
       mpc := (case rErr of
                 Some e \<Rightarrow> M_Deferred (Some (Errorf ''read from pty'' e))
               | None \<Rightarrow> M_LoadWritten)\<rparr>"

text \<open>
  The goroutine of \<^verbatim>\<open>Run\<close>. \<open>M_Start\<close> is lines 41-113: the division of line 56 (a
  panic when \<^verbatim>\<open>TicksPerSecond\<close> is 0), the open of line 60 and the return of line 69 when
  it fails, the deferred close of lines 72-75, \<^verbatim>\<open>time.NewTicker\<close> of line 86 (a panic
  when the interval is not positive, after which the deferred close still runs) and the
  start of the two tasks. \<open>M_Deferred r\<close> is the deferred close followed by the return of
  \<open>r\<close>.
\<close>

definition main_step :: "run_env \<Rightarrow> Config \<Rightarrow> run_state \<Rightarrow> run_state" where
  "main_step env cfg s =
     (case mpc s of
        M_Start \<Rightarrow>
          (if TicksPerSecond cfg = 0 then s\<lparr>crashed := True, mpc := M_Panicked\<rparr>
           else (case open_result env of
                   Some err \<Rightarrow>
                     s\<lparr>trace := trace s @ [ConnOpen,
                                            RunReturned (Some (Errorf ''connect to workspace'' err))],
                       mpc := M_Returned (Some (Errorf ''connect to workspace'' err))\<rparr>
                 | None \<Rightarrow>
                     (if TicksPerSecond cfg \<le>s 0
                      then s\<lparr>trace := trace s @ [ConnOpen], mpc := M_DeferredPanic\<rparr>
                      else s\<lparr>trace := trace s @ [ConnOpen], mpc := M_WaitWriter,
                             rpc := R_Drain, wpc := W_Write\<rparr>)))
      | M_WaitWriter \<Rightarrow> (case wpc s of W_Send wErr \<Rightarrow> recv_writer s wErr | _ \<Rightarrow> s)
      | M_WaitReader \<Rightarrow> (case rpc s of R_Send rErr \<Rightarrow> recv_reader s rErr | _ \<Rightarrow> s)
      | M_LoadWritten \<Rightarrow> s\<lparr>trace := trace s @ [LoadBytesWritten], mpc := M_LoadRead\<rparr>
      | M_LoadRead \<Rightarrow> s\<lparr>trace := trace s @ [LoadBytesRead], mpc := M_Deferred None\<rparr>
      | M_Deferred r \<Rightarrow>
          s\<lparr>trace := trace s @ [ConnClose DeferredClose, RunReturned r], mpc := M_Returned r\<rparr>
      | M_DeferredPanic \<Rightarrow>
          s\<lparr>trace := trace s @ [ConnClose DeferredClose], crashed := True, mpc := M_Panicked\<rparr>
      | M_Returned r \<Rightarrow> s
      | M_Panicked \<Rightarrow> s)"

text \<open>
  The writer goroutine, lines 108-113. A panic in \<^verbatim>\<open>writeRandomData\<close> is a panic of the
  goroutine: the program stops.
\<close>

definition writer_step :: "run_env \<Rightarrow> Config \<Rightarrow> run_state \<Rightarrow> run_state" where
  "writer_step env cfg s =
     (case wpc s of
        W_Write \<Rightarrow>
          (case writer_task env cfg of
             Blocked \<Rightarrow> s
           | Returned wErr \<Rightarrow>
               s\<lparr>trace := trace s @ [TaskReturned WriterTask wErr], wpc := W_Send wErr\<rparr>
           | Panicked p \<Rightarrow> s\<lparr>crashed := True\<rparr>)
      | W_Send wErr \<Rightarrow> (if mpc s = M_WaitWriter then recv_writer s wErr else s)
      | _ \<Rightarrow> s)"

text \<open>The reader goroutine, lines 99-105: drain, send, close the connection.\<close>

definition reader_step :: "run_env \<Rightarrow> Config \<Rightarrow> run_state \<Rightarrow> run_state" where
  "reader_step env cfg s =
     (case rpc s of
        R_Drain \<Rightarrow>
          (case reader_task env cfg of
             Blocked \<Rightarrow> s
           | Returned rErr \<Rightarrow>
               s\<lparr>trace := trace s @ [TaskReturned ReaderTask rErr], rpc := R_Send rErr\<rparr>
           | Panicked p \<Rightarrow> s\<lparr>crashed := True\<rparr>)
      | R_Send rErr \<Rightarrow> (if mpc s = M_WaitReader then recv_reader s rErr else s)
      | R_Close \<Rightarrow> s\<lparr>trace := trace s @ [ConnClose ReaderClose], rpc := R_Gone\<rparr>
      | _ \<Rightarrow> s)"

definition step :: "run_env \<Rightarrow> Config \<Rightarrow> run_state \<Rightarrow> thread \<Rightarrow> run_state" where
  "step env cfg s t =
     (if crashed s then s
      else case t of
             MainT \<Rightarrow> main_step env cfg s
           | ReaderT \<Rightarrow> reader_step env cfg s
           | WriterT \<Rightarrow> writer_step env cfg s)"

definition Run :: "run_env \<Rightarrow> Config \<Rightarrow> thread list \<Rightarrow> run_state" where
  "Run env cfg sched = foldl (step env cfg) run_init sched"

text \<open>What \<^verbatim>\<open>Run\<close> has returned, if it has.\<close>

definition Run_result :: "run_state \<Rightarrow> error option option" where
  "Run_result s = (case mpc s of M_Returned r \<Rightarrow> Some r | _ \<Rightarrow> None)"


section \<open>Traces and reachable states\<close>

text \<open>
  \<open>precedes P Q tr\<close>: no event \<open>Q\<close> stands in \<open>tr\<close> before the first event \<open>P\<close>, that
  is, every \<open>Q\<close> comes after some \<open>P\<close>.
\<close>

fun precedes :: "('a \<Rightarrow> bool) \<Rightarrow> ('a \<Rightarrow> bool) \<Rightarrow> 'a list \<Rightarrow> bool" where
  "precedes P Q [] = True"
| "precedes P Q (x # xs) = (P x \<or> (\<not> Q x \<and> precedes P Q xs))"

definition is_returned :: "task \<Rightarrow> event \<Rightarrow> bool" where
  "is_returned t ev = (case ev of TaskReturned t' r \<Rightarrow> t' = t | _ \<Rightarrow> False)"

definition is_close :: "event \<Rightarrow> bool" where
  "is_close ev = (case ev of ConnClose c \<Rightarrow> True | _ \<Rightarrow> False)"

definition is_load :: "event \<Rightarrow> bool" where
  "is_load ev = (ev = LoadBytesWritten \<or> ev = LoadBytesRead)"

text \<open>How often \<^verbatim>\<open>conn.Close()\<close> has been invoked.\<close>

definition closes :: "event list \<Rightarrow> nat" where
  "closes tr = length (filter is_close tr)"

text \<open>
  The states a run can be in. \<open>pcs_ok\<close> relates the three program counters to each other
  and to what the tasks return; \<open>members_ok\<close> says which events the trace holds in such a
  state; \<open>order_ok\<close> is the order of these events.
\<close>

definition idle :: "run_state \<Rightarrow> bool" where
  "idle s = (rpc s = R_Idle \<and> wpc s = W_Idle)"

definition w_running :: "run_env \<Rightarrow> Config \<Rightarrow> run_state \<Rightarrow> bool" where
  "w_running env cfg s =
     (case wpc s of W_Write \<Rightarrow> True | W_Send r \<Rightarrow> writer_task env cfg = Returned r | _ \<Rightarrow> False)"

definition r_running :: "run_env \<Rightarrow> Config \<Rightarrow> run_state \<Rightarrow> bool" where
  "r_running env cfg s =
     (case rpc s of R_Drain \<Rightarrow> True | R_Send r \<Rightarrow> reader_task env cfg = Returned r | _ \<Rightarrow> False)"

definition r_sent :: "run_state \<Rightarrow> bool" where
  "r_sent s = (rpc s = R_Close \<or> rpc s = R_Gone)"

definition normal :: "run_env \<Rightarrow> Config \<Rightarrow> run_state \<Rightarrow> bool" where
  "normal env cfg s =
     (open_result env = None \<and> wpc s = W_Gone \<and> writer_task env cfg = Returned None
      \<and> reader_task env cfg = Returned None \<and> r_sent s)"

definition finished :: "run_env \<Rightarrow> Config \<Rightarrow> run_state \<Rightarrow> error option \<Rightarrow> bool" where
  "finished env cfg s r =
     (wpc s = W_Gone \<and>
      (case writer_task env cfg of
         Returned (Some e) \<Rightarrow> r = Some (Errorf ''write to pty'' e) \<and> r_running env cfg s
       | Returned None \<Rightarrow>
           r_sent s \<and>
           (case reader_task env cfg of
              Returned rr \<Rightarrow> r = map_option (Errorf ''read from pty'') rr
            | _ \<Rightarrow> False)
       | _ \<Rightarrow> False))"

definition pcs_ok :: "run_env \<Rightarrow> Config \<Rightarrow> run_state \<Rightarrow> bool" where
  "pcs_ok env cfg s =
     (case mpc s of
        M_Start \<Rightarrow> idle s \<and> \<not> crashed s \<and> trace s = []
      | M_WaitWriter \<Rightarrow> open_result env = None \<and> w_running env cfg s \<and> r_running env cfg s
      | M_WaitReader \<Rightarrow>
          open_result env = None \<and> wpc s = W_Gone \<and> writer_task env cfg = Returned None
          \<and> r_running env cfg s
      | M_LoadWritten \<Rightarrow> normal env cfg s
      | M_LoadRead \<Rightarrow> normal env cfg s
      | M_Deferred r \<Rightarrow> open_result env = None \<and> finished env cfg s r
      | M_DeferredPanic \<Rightarrow>
          open_result env = None \<and> idle s \<and> TicksPerSecond cfg \<noteq> 0 \<and> TicksPerSecond cfg \<le>s 0
      | M_Returned r \<Rightarrow>
          (case open_result env of
             Some e \<Rightarrow> r = Some (Errorf ''connect to workspace'' e) \<and> idle s
           | None \<Rightarrow> finished env cfg s r)
      | M_Panicked \<Rightarrow>
          idle s \<and> crashed s \<and> (TicksPerSecond cfg = 0 \<or> open_result env = None))"

definition deferred_closed :: "run_env \<Rightarrow> Config \<Rightarrow> run_state \<Rightarrow> bool" where
  "deferred_closed env cfg s =
     (case mpc s of
        M_Returned r \<Rightarrow> open_result env = None
      | M_Panicked \<Rightarrow> TicksPerSecond cfg \<noteq> 0
      | _ \<Rightarrow> False)"

definition members_ok :: "run_env \<Rightarrow> Config \<Rightarrow> run_state \<Rightarrow> bool" where
  "members_ok env cfg s =
     ((list_ex (is_returned WriterTask) (trace s) \<longleftrightarrow> (wpc s \<noteq> W_Idle \<and> wpc s \<noteq> W_Write))
    \<and> (list_ex (is_returned ReaderTask) (trace s) \<longleftrightarrow> (rpc s \<noteq> R_Idle \<and> rpc s \<noteq> R_Drain))
    \<and> (Received WriterTask \<in> set (trace s) \<longleftrightarrow> wpc s = W_Gone)
    \<and> (Received ReaderTask \<in> set (trace s) \<longleftrightarrow> r_sent s)
    \<and> (ConnClose ReaderClose \<in> set (trace s) \<longleftrightarrow> rpc s = R_Gone)
    \<and> (ConnClose DeferredClose \<in> set (trace s) \<longleftrightarrow> deferred_closed env cfg s)
    \<and> (LoadBytesWritten \<in> set (trace s)
         \<longleftrightarrow> (mpc s = M_LoadRead \<or> mpc s = M_Deferred None \<or> mpc s = M_Returned None))
    \<and> (LoadBytesRead \<in> set (trace s) \<longleftrightarrow> (mpc s = M_Deferred None \<or> mpc s = M_Returned None))
    \<and> (trace s = [] \<longleftrightarrow> (mpc s = M_Start \<or> (mpc s = M_Panicked \<and> TicksPerSecond cfg = 0)))
    \<and> (trace s \<noteq> [] \<longrightarrow> hd (trace s) = ConnOpen)
    \<and> closes (trace s) = (if ConnClose DeferredClose \<in> set (trace s) then 1 else 0)
                          + (if ConnClose ReaderClose \<in> set (trace s) then 1 else 0))"

definition order_ok :: "Config \<Rightarrow> run_state \<Rightarrow> bool" where
  "order_ok cfg s =
     (precedes (\<lambda>e. e = Received WriterTask) (\<lambda>e. e = Received ReaderTask) (trace s)
    \<and> precedes (is_returned WriterTask) is_load (trace s)
    \<and> precedes (is_returned ReaderTask) is_load (trace s)
    \<and> precedes (is_returned WriterTask) (\<lambda>e. e = ConnClose ReaderClose) (trace s)
    \<and> precedes (is_returned ReaderTask) (\<lambda>e. e = ConnClose ReaderClose) (trace s)
    \<and> precedes (\<lambda>e. e = Received ReaderTask) (\<lambda>e. e = ConnClose ReaderClose) (trace s)
    \<and> (\<not> list_ex is_load (trace s)
        \<or> precedes (\<lambda>e. e = LoadBytesRead) (\<lambda>e. e = ConnClose DeferredClose) (trace s))
    \<and> (\<not> 0 <s TicksPerSecond cfg \<or> precedes (is_returned WriterTask) is_close (trace s)))"

definition reach_ok :: "run_env \<Rightarrow> Config \<Rightarrow> run_state \<Rightarrow> bool" where
  "reach_ok env cfg s = (pcs_ok env cfg s \<and> members_ok env cfg s \<and> order_ok cfg s)"

text \<open>
  Two more facts of every reachable state: unless the writer failed (or the ticker could
  not be made), the reader has returned before any close; and the program stops only
  where the ticker cannot be made or a task panics.
\<close>

definition close_ok :: "run_env \<Rightarrow> Config \<Rightarrow> run_state \<Rightarrow> bool" where
  "close_ok env cfg s =
     (\<not> 0 <s TicksPerSecond cfg
      \<or> (\<exists>e. writer_task env cfg = Returned (Some e))
      \<or> precedes (is_returned ReaderTask) is_close (trace s))"

definition is_panicked :: "'a outcome \<Rightarrow> bool" where
  "is_panicked r = (case r of Panicked p \<Rightarrow> True | _ \<Rightarrow> False)"

definition crash_ok :: "run_env \<Rightarrow> Config \<Rightarrow> run_state \<Rightarrow> bool" where
  "crash_ok env cfg s =
     (\<not> crashed s \<or> TicksPerSecond cfg \<le>s 0
      \<or> is_panicked (writer_task env cfg) \<or> is_panicked (reader_task env cfg))"

text \<open>
  Both tasks have returned and the program has not stopped; and the number of steps the
  goroutine of \<^verbatim>\<open>Run\<close> then has left before it returns.
\<close>

definition tasks_done :: "run_state \<Rightarrow> bool" where
  "tasks_done s = (\<not> crashed s \<and> mpc s \<noteq> M_Start \<and> wpc s \<noteq> W_Write \<and> rpc s \<noteq> R_Drain)"

definition steps_left :: "run_state \<Rightarrow> nat" where
  "steps_left s =
     (case mpc s of
        M_WaitWriter \<Rightarrow> 5
      | M_WaitReader \<Rightarrow> 4
      | M_LoadWritten \<Rightarrow> 3
      | M_LoadRead \<Rightarrow> 2
      | M_Deferred r \<Rightarrow> 1
      | _ \<Rightarrow> 0)"

section \<open>Timelines on which only the deadline ends the run\<close>

text \<open>
  The only cancellation is the expiry of the deadline, and a \<^verbatim>\<open>Write\<close> of the stream
  succeeds or reports the end of the stream.
\<close>

fun quiet_cev :: "cev \<Rightarrow> bool" where
  "quiet_cev (Fire e) = (e = DeadlineExceeded)"
| "quiet_cev (WriteRet n err) = (err = None \<or> err = Some EOF)"

fun quiet_wev :: "wev \<Rightarrow> bool" where
  "quiet_wev (CtxFire e) = (e = DeadlineExceeded)"
| "quiet_wev SelDone = True"
| "quiet_wev (SelTick cevs) = list_all quiet_cev cevs"

definition deadline_ctx :: "error option \<Rightarrow> bool" where
  "deadline_ctx c = (c = None \<or> c = Some DeadlineExceeded)"

section \<open>Timelines of whole payloads\<close>







section \<open>Example runs\<close>

definition ex_calls :: "rw_call list" where
  "ex_calls = [WriteCall (Stream 1 None), ReadCall (Stream 1 None),
     ReadCall (CtxErr DeadlineExceeded), WriteCall (Stream 0 (Some EOF)),
     WriteCall (Stream 1 None), ReadCall (Stream 1 (Some EOF))]"

definition ex_tick :: "wev list" where
  "ex_tick = [SelTick [WriteRet 1 None, Fire DeadlineExceeded], SelDone]"

text \<open>20 bytes per second in 10 ticks: 2 bytes per tick.\<close>

definition ex_cfg :: Config where
  "ex_cfg = \<lparr>AgentID = ''agent'', BytesPerSecond = 20, Duration = 1000000000,
             TicksPerSecond = 10\<rparr>"


text \<open>Fewer bytes per second than ticks: 0 bytes per tick.\<close>

definition low_cfg :: Config where
  "low_cfg = \<lparr>AgentID = ''agent'', BytesPerSecond = 1, Duration = 1000000000,
              TicksPerSecond = 2\<rparr>"

text \<open>A duration of one nanosecond: the deadline passes before the tasks are under way.\<close>

definition short_cfg :: Config where
  "short_cfg = \<lparr>AgentID = ''agent'', BytesPerSecond = 20, Duration = 1, TicksPerSecond = 10\<rparr>"

text \<open>One tick written whole, one byte read, then the deadline; both selects take it.\<close>

definition echo_env :: run_env where
  "echo_env = \<lparr>open_result = None, env_gen = letters, env_marshal = json_frame,
     writer_events = [SelTick (replicate 13 (WriteRet 1 None)), CtxFire DeadlineExceeded, SelDone],
     reader_events = [DInner 1 None, DCtxFire DeadlineExceeded, DSelDone]\<rparr>"

text \<open>
  The deadline has passed when the tasks start and the stream is silent. The reading
  goroutine runs first: its \<open>Read\<close> fails with the context's error, which it offers on
  \<^verbatim>\<open>errCh\<close>; the select of \<^verbatim>\<open>drainContext\<close>, with both cases ready, takes \<^verbatim>\<open>errCh\<close>.
\<close>

definition race_env :: run_env where
  "race_env = \<lparr>open_result = None, env_gen = letters, env_marshal = json_frame,
     writer_events = [CtxFire DeadlineExceeded, SelDone],
     reader_events = [DCtxFire DeadlineExceeded, DInner 0 None, DSelErr]\<rparr>"

text \<open>The caller cancels after the first byte of the first payload.\<close>

definition cancel_env :: run_env where
  "cancel_env = \<lparr>open_result = None, env_gen = letters, env_marshal = json_frame,
     writer_events = [SelTick [WriteRet 1 None, Fire Canceled]],
     reader_events = [DCtxFire Canceled, DSelDone]\<rparr>"

text \<open>Both directions of the stream fail.\<close>

definition broken_env :: run_env where
  "broken_env = \<lparr>open_result = None, env_gen = letters, env_marshal = json_frame,
     writer_events = [SelTick [WriteRet 0 (Some (Failure ''broken pipe''))]],
     reader_events = [DInner 0 (Some (Failure ''connection reset'')), DSelErr]\<rparr>"

text \<open>The writer stops at the deadline; the read direction of the stream fails.\<close>

definition reader_broken_env :: run_env where
  "reader_broken_env = \<lparr>open_result = None, env_gen = letters, env_marshal = json_frame,
     writer_events = [CtxFire DeadlineExceeded, SelDone],
     reader_events = [DInner 0 (Some (Failure ''connection reset'')), DSelErr]\<rparr>"

text \<open>The deadline comes before the first tick.\<close>

definition deadline_first_env :: run_env where
  "deadline_first_env = \<lparr>open_result = None, env_gen = letters, env_marshal = json_frame,
     writer_events = [CtxFire DeadlineExceeded, SelDone],
     reader_events = [DCtxFire DeadlineExceeded, DSelDone]\<rparr>"

text \<open>A tick comes first.\<close>

definition tick_first_env :: run_env where
  "tick_first_env = \<lparr>open_result = None, env_gen = letters, env_marshal = json_frame,
     writer_events = [SelTick []], reader_events = []\<rparr>"

text \<open>The session cannot be opened.\<close>

definition no_conn_env :: run_env where
  "no_conn_env = \<lparr>open_result = Some (Failure ''dial failed''), env_gen = letters,
     env_marshal = json_frame, writer_events = [], reader_events = []\<rparr>"

text \<open>
  Two schedules of a whole run. In the first \<^verbatim>\<open>Run\<close> goes on to its return before the
  reader goroutine closes the connection; in the second the reader goroutine closes first.
\<close>

text \<open>
  A schedule that lets every goroutine run as far as it can: after it, whatever came
  before, \<^verbatim>\<open>Run\<close> has returned if both tasks return.
\<close>

definition to_completion :: "thread list" where
  "to_completion = [MainT, WriterT, ReaderT, MainT, MainT, MainT, MainT, MainT]"

definition main_first :: "thread list" where
  "main_first = [MainT, WriterT, ReaderT, MainT, MainT, MainT, MainT, MainT, ReaderT]"

definition reader_first :: "thread list" where
  "reader_first = [MainT, WriterT, ReaderT, MainT, MainT, ReaderT, MainT, MainT, MainT]"

section \<open>The counters of the meter\<close>

lemma run_calls_append: "run_calls w (cs @ ds) = run_calls (run_calls w cs) ds"
  by (induction cs arbitrary: w) auto

lemma read_total_append:
  "read_total w (cs @ ds) = read_total w cs + read_total (run_calls w cs) ds"
  by (induction cs arbitrary: w) auto

lemma write_total_append:
  "write_total w (cs @ ds) = write_total w cs + write_total (run_calls w cs) ds"
  by (induction cs arbitrary: w) auto

text \<open>In the arithmetic of \<^verbatim>\<open>int64\<close> the counters are the sums, whatever the calls return.\<close>

lemma bytesRead_run_calls:
  "bytesRead (run_calls w cs) = bytesRead w + word_of_int (read_total w cs)"
proof (induction cs arbitrary: w)
  case Nil show ?case by simp
next
  case (Cons c cs)
  show ?case
    by (cases c; cases "answer_of c") (auto simp: Cons Read_def Write_def returned_ok_def)
qed

lemma bytesWritten_run_calls:
  "bytesWritten (run_calls w cs) = bytesWritten w + word_of_int (write_total w cs)"
proof (induction cs arbitrary: w)
  case Nil show ?case by simp
next
  case (Cons c cs)
  show ?case
    by (cases c; cases "answer_of c") (auto simp: Cons Read_def Write_def returned_ok_def)
qed

lemma returned_ok_nonneg: "nonneg_answer (answer_of c) \<Longrightarrow> 0 \<le> returned_ok w c"
  by (cases c; cases "answer_of c") (auto simp: returned_ok_def Read_def Write_def)

lemma read_total_nonneg: "io_contract cs \<Longrightarrow> 0 \<le> read_total w cs"
proof (induction cs arbitrary: w)
  case Nil show ?case by simp
next
  case (Cons c cs)
  have "0 \<le> returned_ok w c" using Cons.prems by (simp add: io_contract_def returned_ok_nonneg)
  moreover have "0 \<le> read_total (fst (do_call w c)) cs"
    using Cons.prems by (intro Cons.IH) (simp add: io_contract_def)
  ultimately show ?case by simp
qed

lemma write_total_nonneg: "io_contract cs \<Longrightarrow> 0 \<le> write_total w cs"
proof (induction cs arbitrary: w)
  case Nil show ?case by simp
next
  case (Cons c cs)
  have "0 \<le> returned_ok w c" using Cons.prems by (simp add: io_contract_def returned_ok_nonneg)
  moreover have "0 \<le> write_total (fst (do_call w c)) cs"
    using Cons.prems by (intro Cons.IH) (simp add: io_contract_def)
  ultimately show ?case by simp
qed

lemma io_contract_take: "io_contract cs \<Longrightarrow> io_contract (take k cs)"
  unfolding io_contract_def list_all_iff by (auto dest: in_set_takeD)

lemma io_contract_drop: "io_contract cs \<Longrightarrow> io_contract (drop k cs)"
  unfolding io_contract_def list_all_iff by (auto dest: in_set_dropD)

lemma read_total_prefix_mono:
  assumes "io_contract cs" "j \<le> k"
  shows "read_total w (take j cs) \<le> read_total w (take k cs)"
proof -
  have "take k cs = take j (take k cs) @ drop j (take k cs)"
    by (rule append_take_drop_id [symmetric])
  also have "take j (take k cs) = take j cs" using assms(2) by (simp add: min_def)
  finally have split: "take k cs = take j cs @ drop j (take k cs)" .
  have "io_contract (drop j (take k cs))"
    using assms(1) by (intro io_contract_drop io_contract_take)
  then have "0 \<le> read_total (run_calls w (take j cs)) (drop j (take k cs))"
    by (rule read_total_nonneg)
  moreover have "read_total w (take k cs) = read_total w (take j cs @ drop j (take k cs))"
    using split by simp
  ultimately show ?thesis
    by (simp add: read_total_append)
qed

lemma write_total_prefix_mono:
  assumes "io_contract cs" "j \<le> k"
  shows "write_total w (take j cs) \<le> write_total w (take k cs)"
proof -
  have "take k cs = take j (take k cs) @ drop j (take k cs)"
    by (rule append_take_drop_id [symmetric])
  also have "take j (take k cs) = take j cs" using assms(2) by (simp add: min_def)
  finally have split: "take k cs = take j cs @ drop j (take k cs)" .
  have "io_contract (drop j (take k cs))"
    using assms(1) by (intro io_contract_drop io_contract_take)
  then have "0 \<le> write_total (run_calls w (take j cs)) (drop j (take k cs))"
    by (rule write_total_nonneg)
  moreover have "write_total w (take k cs) = write_total w (take j cs @ drop j (take k cs))"
    using split by simp
  ultimately show ?thesis
    by (simp add: write_total_append)
qed

lemma sint_int64: "0 \<le> x \<Longrightarrow> x < 2 ^ 63 \<Longrightarrow> sint (word_of_int x :: 64 word) = x"
  by (simp add: sint_sbintrunc' signed_take_bit_int_eq_self)

text \<open>
  C2. For every history \<open>cs\<close> of \<open>Read\<close> and \<open>Write\<close> calls on a fresh meter, at every
  observation point (after the first \<open>k\<close> calls) \<open>BytesRead\<close> is the sum of the byte
  counts returned by the \<open>Read\<close> calls that returned a nil error, \<open>BytesWritten\<close> the same
  over the \<open>Write\<close> calls, and neither counter is ever smaller than at an earlier point
  \<open>j\<close>. The history interleaves the calls of the reader and of the writer in any order.
  The calls keep the contract of \<^verbatim>\<open>io.Reader\<close> and \<^verbatim>\<open>io.Writer\<close> (no negative count), and
  the totals fit an \<^verbatim>\<open>int64\<close>; \<open>bytesRead_run_calls\<close> and \<open>bytesWritten_run_calls\<close> are
  the same equations in wrap-around arithmetic, without these two conditions.
\<close>

theorem counters_exact:
  assumes "io_contract cs"
    and "read_total new_crw cs < 2 ^ 63"
    and "write_total new_crw cs < 2 ^ 63"
  shows "sint (BytesRead (run_calls new_crw (take k cs))) = read_total new_crw (take k cs)
       \<and> sint (BytesWritten (run_calls new_crw (take k cs))) = write_total new_crw (take k cs)
       \<and> (\<forall>j\<le>k. sint (BytesRead (run_calls new_crw (take j cs)))
                   \<le> sint (BytesRead (run_calls new_crw (take k cs)))
                \<and> sint (BytesWritten (run_calls new_crw (take j cs)))
                   \<le> sint (BytesWritten (run_calls new_crw (take k cs))))"
proof -
  have rd: "0 \<le> read_total new_crw (take i cs) \<and> read_total new_crw (take i cs) < 2 ^ 63" for i
  proof -
    have "read_total new_crw (take i cs) \<le> read_total new_crw (take (max i (length cs)) cs)"
      using assms(1) by (rule read_total_prefix_mono) simp
    then show ?thesis
      using assms(2) read_total_nonneg [OF io_contract_take [OF assms(1), of i], of new_crw]
      by simp
  qed
  have wr: "0 \<le> write_total new_crw (take i cs) \<and> write_total new_crw (take i cs) < 2 ^ 63" for i
  proof -
    have "write_total new_crw (take i cs) \<le> write_total new_crw (take (max i (length cs)) cs)"
      using assms(1) by (rule write_total_prefix_mono) simp
    then show ?thesis
      using assms(3) write_total_nonneg [OF io_contract_take [OF assms(1), of i], of new_crw]
      by simp
  qed
  have R: "sint (BytesRead (run_calls new_crw (take i cs))) = read_total new_crw (take i cs)" for i
    using rd [of i] by (simp add: BytesRead_def bytesRead_run_calls new_crw_def sint_int64)
  have W: "sint (BytesWritten (run_calls new_crw (take i cs))) = write_total new_crw (take i cs)"
    for i
    using wr [of i] by (simp add: BytesWritten_def bytesWritten_run_calls new_crw_def sint_int64)
  show ?thesis
    using assms(1) by (simp add: R W read_total_prefix_mono write_total_prefix_mono)
qed

theorem counters_exact_witness:
  "io_contract ex_calls \<and> read_total new_crw ex_calls < 2 ^ 63
   \<and> write_total new_crw ex_calls < 2 ^ 63
   \<and> sint (BytesRead (run_calls new_crw (take 5 ex_calls))) = 1
   \<and> sint (BytesWritten (run_calls new_crw (take 5 ex_calls))) = 2
   \<and> sint (BytesWritten (run_calls new_crw (take 1 ex_calls)))
       \<le> sint (BytesWritten (run_calls new_crw (take 5 ex_calls)))"
proof -
  have h1: "io_contract ex_calls" by (simp add: ex_calls_def io_contract_def)
  have h2: "read_total new_crw ex_calls < 2 ^ 63"
    by (simp add: ex_calls_def returned_ok_def Read_def Write_def)
  have h3: "write_total new_crw ex_calls < 2 ^ 63"
    by (simp add: ex_calls_def returned_ok_def Read_def Write_def)
  have r: "read_total new_crw (take 5 ex_calls) = 1"
    by (simp add: ex_calls_def returned_ok_def Read_def Write_def)
  have w: "write_total new_crw (take 5 ex_calls) = 2"
    by (simp add: ex_calls_def returned_ok_def Read_def Write_def)
  note inst = counters_exact [OF h1 h2 h3, of 5]
  from inst have "sint (BytesWritten (run_calls new_crw (take 1 ex_calls)))
       \<le> sint (BytesWritten (run_calls new_crw (take 5 ex_calls)))"
    by (elim conjE allE [of _ 1]) simp
  with inst h1 h2 h3 r w show ?thesis by simp
qed

section \<open>The payloads of the writer\<close>

lemma sint_pred_int64: "1 \<le> sint (sz :: 64 word) \<Longrightarrow> sint (sz - 1) = sint sz - 1"
proof -
  assume a: "1 \<le> sint sz"
  have "sint sz < 2 ^ 63" using sint_lt [of sz] by simp
  with a show ?thesis
    by (simp add: sint_word_diff signed_take_bit_int_eq_self)
qed

text \<open>What holds of every payload the generator can give holds of every request built.\<close>

lemma writer_requests_inv:
  assumes new: "\<And>k s. gen k (sint (sz - 1)) = Inr s \<Longrightarrow> P \<lparr>Data = CHR ''#'' # s\<rparr>"
    and old: "\<forall>r\<in>set (requests st). P r"
  shows "\<forall>r\<in>set (requests (snd (writeRandomData gen marshal sz st evs))). P r"
  using old
proof (induction evs arbitrary: st)
  case Nil
  then show ?case by simp
next
  case (Cons ev evs)
  show ?case
  proof (cases ev)
    case (CtxFire e)
    then show ?thesis
      using Cons.IH [of "st\<lparr>ctx_err := cancel (ctx_err st) e\<rparr>"] Cons.prems by simp
  next
    case SelDone
    then show ?thesis using Cons.IH [of st] Cons.prems by simp
  next
    case (SelTick cevs)
    show ?thesis
    proof (cases "gen (ticks st) (sint (sz - 1))")
      case (Inl err)
      then show ?thesis using SelTick Cons.prems by (simp add: mustRandStr_def)
    next
      case (Inr s)
      let ?req = "\<lparr>Data = CHR ''#'' # s\<rparr>"
      let ?st1 = "st\<lparr>ticks := Suc (ticks st), requests := requests st @ [?req]\<rparr>"
      have P1: "\<forall>r\<in>set (requests ?st1). P r" using Cons.prems new [OF Inr] by simp
      show ?thesis
      proof (cases "marshal ?req")
        case (Inl err)
        then show ?thesis using SelTick Inr P1 by (simp add: mustRandStr_def)
      next
        case data: (Inr data)
        obtain c w res where cp: "copyContext (ctx_err ?st1) (meter ?st1) data cevs = (c, w, res)"
          by (cases "copyContext (ctx_err ?st1) (meter ?st1) data cevs") auto
        let ?st2 = "?st1\<lparr>ctx_err := c, meter := w\<rparr>"
        have P2: "\<forall>r\<in>set (requests ?st2). P r" using P1 by simp
        show ?thesis
        proof (cases res)
          case None
          then show ?thesis using SelTick Inr data cp P2 by (simp add: mustRandStr_def)
        next
          case (Some nr)
          obtain n r where nr: "nr = (n, r)" by (cases nr) auto
          show ?thesis
          proof (cases r)
            case None
            then show ?thesis
              using SelTick Inr data cp Some nr Cons.IH [OF P2] by (simp add: mustRandStr_def)
          next
            case (Some err)
            then show ?thesis
              using SelTick Inr data cp \<open>res = Some nr\<close> nr P2 by (simp add: mustRandStr_def)
          qed
        qed
      qed
    qed
  qed
qed

text \<open>
  C3. Given \<open>bytesPerTick \<ge> 1\<close> (\<open>sz\<close>, a signed 64-bit value), on every timeline every
  request the writer builds for a tick carries a data string that begins with \<^verbatim>\<open>#\<close> and
  has exactly \<open>bytesPerTick\<close> bytes: the marker and the \<open>bytesPerTick - 1\<close> bytes of one
  call of the generator. The generator is taken as the spec describes it: a call that
  succeeds returns a string of the length asked for.
\<close>

theorem payload_shape:
  assumes "1 \<le>s sz"
    and "\<forall>k n s. gen k n = Inr s \<longrightarrow> int (length s) = n"
  shows "\<forall>req\<in>set (requests (snd (writeRandomData gen marshal sz new_writer evs))).
           hd (Data req) = CHR ''#''
         \<and> int (length (Data req)) = sint sz
         \<and> (\<exists>k. gen k (sint sz - 1) = Inr (tl (Data req)))"
proof (rule writer_requests_inv)
  fix k s
  assume g: "gen k (sint (sz - 1)) = Inr s"
  have one: "1 \<le> sint sz" using assms(1) by (simp add: word_sle_eq)
  have "int (length s) = sint sz - 1" using assms(2) g sint_pred_int64 [OF one] by auto
  moreover have "gen k (sint sz - 1) = Inr s" using g sint_pred_int64 [OF one] by simp
  ultimately show "hd (Data \<lparr>Data = CHR ''#'' # s\<rparr>) = CHR ''#''
         \<and> int (length (Data \<lparr>Data = CHR ''#'' # s\<rparr>)) = sint sz
         \<and> (\<exists>k. gen k (sint sz - 1) = Inr (tl (Data \<lparr>Data = CHR ''#'' # s\<rparr>)))"
    by auto
next
  show "\<forall>r\<in>set (requests new_writer). hd (Data r) = CHR ''#''
         \<and> int (length (Data r)) = sint sz
         \<and> (\<exists>k. gen k (sint sz - 1) = Inr (tl (Data r)))"
    by (simp add: new_writer_def)
qed

lemma letters_length: "\<forall>k n s. letters k n = Inr s \<longrightarrow> int (length s) = n"
  by (auto simp: letters_def rand_from_def split: if_splits)

theorem payload_shape_witness:
  "requests (snd (writeRandomData letters json_frame 3 new_writer ex_tick)) = [\<lparr>Data = ''#aa''\<rparr>]
   \<and> hd (Data \<lparr>Data = ''#aa''\<rparr>) = CHR ''#''
   \<and> int (length (Data \<lparr>Data = ''#aa''\<rparr>)) = sint (3 :: 64 word)"
proof -
  have h1: "1 \<le>s (3 :: 64 word)" by (simp add: word_sle_eq)
  have r: "requests (snd (writeRandomData letters json_frame 3 new_writer ex_tick))
             = [\<lparr>Data = ''#aa''\<rparr>]"
    by code_simp
  from payload_shape [OF h1 letters_length, of json_frame ex_tick] r show ?thesis by simp
qed

section \<open>The rate of the writer\<close>





















section \<open>Reachable states of Run\<close>

lemmas run_defs = pcs_ok_def recv_writer_def recv_reader_def idle_def w_running_def
  r_running_def r_sent_def normal_def finished_def

lemmas trace_defs = deferred_closed_def is_returned_def is_close_def
  is_load_def closes_def

lemma precedes_snoc:
  "precedes P Q (xs @ [x]) = (precedes P Q xs \<and> (Q x \<longrightarrow> P x \<or> list_ex P xs))"
  by (induction xs) auto

lemma precedes_snoc2:
  "precedes P Q (xs @ [x, y]) =
     (precedes P Q xs \<and> (Q x \<longrightarrow> P x \<or> list_ex P xs) \<and> (Q y \<longrightarrow> P y \<or> P x \<or> list_ex P xs))"
  using precedes_snoc [of P Q "xs @ [x]" y] by (auto simp: precedes_snoc)

lemma precedes_absent_eq: "q \<notin> set xs \<Longrightarrow> precedes P (\<lambda>e. e = q) xs"
  by (induction xs) auto

lemma list_ex_is_load:
  "list_ex is_load xs = (LoadBytesWritten \<in> set xs \<or> LoadBytesRead \<in> set xs)"
  by (auto simp: list_ex_iff is_load_def)

lemma list_ex_eq: "list_ex (\<lambda>e. e = q) xs = (q \<in> set xs)"
  by (auto simp: list_ex_iff)

lemma not_pos_int64: "x \<le>s 0 \<Longrightarrow> \<not> 0 <s (x :: 64 word)"
  by (simp add: word_sle_eq word_sless_alt)

lemmas order_defs = order_ok_def precedes_snoc precedes_snoc2 precedes_absent_eq
  list_ex_is_load list_ex_eq not_pos_int64

lemma pcs_ok_main: "pcs_ok env cfg s \<Longrightarrow> pcs_ok env cfg (main_step env cfg s)"
  by (cases "mpc s"; cases "wpc s"; cases "rpc s")
     (simp_all add: main_step_def run_defs split: outcome.splits option.splits)

lemma pcs_ok_reader: "pcs_ok env cfg s \<Longrightarrow> pcs_ok env cfg (reader_step env cfg s)"
  by (cases "rpc s"; cases "mpc s")
     (simp_all add: reader_step_def run_defs split: outcome.splits option.splits)

lemma pcs_ok_writer: "pcs_ok env cfg s \<Longrightarrow> pcs_ok env cfg (writer_step env cfg s)"
  by (cases "wpc s"; cases "mpc s")
     (simp_all add: writer_step_def run_defs split: outcome.splits option.splits)

lemma members_ok_main:
  "pcs_ok env cfg s \<Longrightarrow> \<not> crashed s \<Longrightarrow> members_ok env cfg s
   \<Longrightarrow> members_ok env cfg (main_step env cfg s)"
  unfolding members_ok_def
  apply (elim conjE)
  apply (cases "mpc s"; cases "wpc s"; cases "rpc s")
  apply (simp_all add: main_step_def run_defs trace_defs hd_append
        split: outcome.splits option.splits)
  done

lemma members_ok_reader:
  "pcs_ok env cfg s \<Longrightarrow> \<not> crashed s \<Longrightarrow> members_ok env cfg s
   \<Longrightarrow> members_ok env cfg (reader_step env cfg s)"
  unfolding members_ok_def
  apply (elim conjE)
  apply (cases "rpc s"; cases "mpc s"; cases "wpc s")
  apply (simp_all add: reader_step_def run_defs trace_defs hd_append
        split: outcome.splits option.splits)
  done

lemma members_ok_writer:
  "pcs_ok env cfg s \<Longrightarrow> \<not> crashed s \<Longrightarrow> members_ok env cfg s
   \<Longrightarrow> members_ok env cfg (writer_step env cfg s)"
  unfolding members_ok_def
  apply (elim conjE)
  apply (cases "wpc s"; cases "mpc s"; cases "rpc s")
  apply (simp_all add: writer_step_def run_defs trace_defs hd_append
        split: outcome.splits option.splits)
  done

lemma order_ok_main:
  "pcs_ok env cfg s \<Longrightarrow> \<not> crashed s \<Longrightarrow> members_ok env cfg s \<Longrightarrow> order_ok cfg s
   \<Longrightarrow> order_ok cfg (main_step env cfg s)"
  unfolding members_ok_def
  apply (cases "mpc s"; cases "wpc s"; cases "rpc s")
  apply (simp_all add: main_step_def run_defs trace_defs order_defs
        split: outcome.splits option.splits)
  apply auto
  done

lemma order_ok_reader:
  "pcs_ok env cfg s \<Longrightarrow> \<not> crashed s \<Longrightarrow> members_ok env cfg s \<Longrightarrow> order_ok cfg s
   \<Longrightarrow> order_ok cfg (reader_step env cfg s)"
  unfolding members_ok_def
  by (cases "rpc s"; cases "mpc s")
     (simp_all add: reader_step_def run_defs trace_defs order_defs
        split: outcome.splits option.splits)

lemma order_ok_writer:
  "pcs_ok env cfg s \<Longrightarrow> \<not> crashed s \<Longrightarrow> members_ok env cfg s \<Longrightarrow> order_ok cfg s
   \<Longrightarrow> order_ok cfg (writer_step env cfg s)"
  unfolding members_ok_def
  by (cases "wpc s"; cases "mpc s")
     (simp_all add: writer_step_def run_defs trace_defs order_defs
        split: outcome.splits option.splits)

lemma reach_ok_init: "reach_ok env cfg run_init"
  by (simp add: reach_ok_def pcs_ok_def members_ok_def order_ok_def run_init_def idle_def
      closes_def r_sent_def deferred_closed_def)

lemma reach_ok_step: "reach_ok env cfg s \<Longrightarrow> reach_ok env cfg (step env cfg s t)"
  unfolding reach_ok_def step_def
  by (cases t)
     (simp_all add: pcs_ok_main pcs_ok_reader pcs_ok_writer members_ok_main members_ok_reader
        members_ok_writer order_ok_main order_ok_reader order_ok_writer)

lemma Run_snoc: "Run env cfg (sched @ [t]) = step env cfg (Run env cfg sched) t"
  by (simp add: Run_def)

lemma reach_ok_Run: "reach_ok env cfg (Run env cfg sched)"
proof (induction sched rule: rev_induct)
  case Nil
  show ?case by (simp add: Run_def reach_ok_init)
next
  case (snoc t sched)
  then show ?case by (simp add: Run_snoc reach_ok_step)
qed

lemma invs: "pcs_ok env cfg (Run env cfg sched)" "members_ok env cfg (Run env cfg sched)"
  "order_ok cfg (Run env cfg sched)"
  using reach_ok_Run [of env cfg sched] by (simp_all add: reach_ok_def)

text \<open>
  Unless the writer failed, the reader has returned before any close; and the program
  stops only where the ticker cannot be made or a task panics.
\<close>

lemma pos_int64: "0 <s x \<Longrightarrow> \<not> x \<le>s 0 \<and> x \<noteq> (0 :: 64 word)"
  by (auto simp: word_sle_eq word_sless_alt)

lemma close_ok_main:
  assumes "pcs_ok env cfg s" "\<not> crashed s" "members_ok env cfg s" "close_ok env cfg s"
  shows "close_ok env cfg (main_step env cfg s)"
proof (cases "0 <s TicksPerSecond cfg \<and> (\<forall>e. writer_task env cfg \<noteq> Returned (Some e))")
  case False
  then show ?thesis by (auto simp: close_ok_def)
next
  case True
  then have p: "precedes (is_returned ReaderTask) is_close (trace s)"
    using assms(4) by (auto simp: close_ok_def)
  have t: "\<not> TicksPerSecond cfg \<le>s 0" "TicksPerSecond cfg \<noteq> 0"
    using True pos_int64 by auto
  have "precedes (is_returned ReaderTask) is_close (trace (main_step env cfg s))"
    using assms(1,2,3) p t True
    unfolding members_ok_def
    apply (elim conjE)
    apply (cases "mpc s"; cases "wpc s"; cases "rpc s")
    apply (simp_all add: main_step_def run_defs trace_defs precedes_snoc precedes_snoc2
        split: outcome.splits option.splits)
    done
  then show ?thesis by (simp add: close_ok_def)
qed

lemma close_ok_reader:
  assumes "pcs_ok env cfg s" "\<not> crashed s" "members_ok env cfg s" "close_ok env cfg s"
  shows "close_ok env cfg (reader_step env cfg s)"
proof (cases "0 <s TicksPerSecond cfg \<and> (\<forall>e. writer_task env cfg \<noteq> Returned (Some e))")
  case False
  then show ?thesis by (auto simp: close_ok_def)
next
  case True
  then have p: "precedes (is_returned ReaderTask) is_close (trace s)"
    using assms(4) by (auto simp: close_ok_def)
  have "precedes (is_returned ReaderTask) is_close (trace (reader_step env cfg s))"
    using assms(1,2,3) p
    unfolding members_ok_def
    apply (elim conjE)
    apply (cases "rpc s"; cases "mpc s")
    apply (simp_all add: reader_step_def run_defs trace_defs precedes_snoc precedes_snoc2
        split: outcome.splits option.splits)
    done
  then show ?thesis by (simp add: close_ok_def)
qed

lemma close_ok_writer:
  assumes "pcs_ok env cfg s" "\<not> crashed s" "members_ok env cfg s" "close_ok env cfg s"
  shows "close_ok env cfg (writer_step env cfg s)"
proof (cases "0 <s TicksPerSecond cfg \<and> (\<forall>e. writer_task env cfg \<noteq> Returned (Some e))")
  case False
  then show ?thesis by (auto simp: close_ok_def)
next
  case True
  then have p: "precedes (is_returned ReaderTask) is_close (trace s)"
    using assms(4) by (auto simp: close_ok_def)
  have "precedes (is_returned ReaderTask) is_close (trace (writer_step env cfg s))"
    using assms(1,2,3) p
    unfolding members_ok_def
    apply (elim conjE)
    apply (cases "wpc s"; cases "mpc s")
    apply (simp_all add: writer_step_def run_defs trace_defs precedes_snoc precedes_snoc2
        split: outcome.splits option.splits)
    done
  then show ?thesis by (simp add: close_ok_def)
qed

lemma close_ok_Run: "close_ok env cfg (Run env cfg sched)"
proof (induction sched rule: rev_induct)
  case Nil
  show ?case by (simp add: Run_def close_ok_def run_init_def)
next
  case (snoc t sched)
  show ?case
    using snoc invs(1,2) [of env cfg sched]
    by (cases t)
       (simp_all add: Run_snoc step_def close_ok_main close_ok_reader close_ok_writer)
qed

lemma crash_ok_step:
  assumes "pcs_ok env cfg s" "crash_ok env cfg s"
  shows "crash_ok env cfg (step env cfg s t)"
proof (cases "crashed s")
  case True
  then show ?thesis using assms(2) by (simp add: step_def)
next
  case False
  have z: "TicksPerSecond cfg = 0 \<Longrightarrow> TicksPerSecond cfg \<le>s 0" by simp
  show ?thesis
  proof (cases t)
    case MainT
    then show ?thesis using assms False z
      by (cases "mpc s")
         (auto simp: step_def crash_ok_def main_step_def recv_writer_def recv_reader_def
            pcs_ok_def split: option.splits writer_pc.splits reader_pc.splits)
  next
    case ReaderT
    then show ?thesis using assms False
      by (cases "rpc s")
         (auto simp: step_def crash_ok_def reader_step_def recv_reader_def is_panicked_def
            split: outcome.splits)
  next
    case WriterT
    then show ?thesis using assms False
      by (cases "wpc s")
         (auto simp: step_def crash_ok_def writer_step_def recv_writer_def is_panicked_def
            split: outcome.splits)
  qed
qed

lemma crash_ok_Run: "crash_ok env cfg (Run env cfg sched)"
proof (induction sched rule: rev_induct)
  case Nil
  show ?case by (simp add: Run_def crash_ok_def run_init_def)
next
  case (snoc t sched)
  show ?case
    using snoc invs(1) [of env cfg sched] by (simp add: Run_snoc crash_ok_step)
qed

text \<open>
  Once both tasks return, the schedule \<open>to_completion\<close> takes \<^verbatim>\<open>Run\<close> to its return
  from every reachable state.
\<close>

lemma main_starts:
  assumes "pcs_ok env cfg s" "\<not> crashed s" "0 <s TicksPerSecond cfg"
  shows "\<not> crashed (main_step env cfg s) \<and> mpc (main_step env cfg s) \<noteq> M_Start"
  using assms pos_int64 [OF assms(3)]
  by (cases "mpc s")
     (auto simp: main_step_def recv_writer_def recv_reader_def pcs_ok_def
        split: option.splits writer_pc.splits reader_pc.splits)

lemma writer_returns:
  assumes "\<not> crashed s" "mpc s \<noteq> M_Start" "writer_task env cfg = Returned wErr"
  shows "\<not> crashed (writer_step env cfg s) \<and> mpc (writer_step env cfg s) \<noteq> M_Start
       \<and> wpc (writer_step env cfg s) \<noteq> W_Write"
  using assms
  by (cases "wpc s") (auto simp: writer_step_def recv_writer_def split: option.splits)

lemma reader_returns:
  assumes "\<not> crashed s" "mpc s \<noteq> M_Start" "wpc s \<noteq> W_Write"
    and "reader_task env cfg = Returned rErr"
  shows "tasks_done (reader_step env cfg s)"
  using assms
  by (cases "rpc s")
     (auto simp: tasks_done_def reader_step_def recv_reader_def split: option.splits)

lemma main_advances:
  assumes "pcs_ok env cfg s" "tasks_done s" "0 <s TicksPerSecond cfg"
  shows "tasks_done (main_step env cfg s)
       \<and> steps_left (main_step env cfg s) \<le> steps_left s - 1"
  using assms pos_int64 [OF assms(3)]
  by (cases "mpc s"; cases "wpc s"; cases "rpc s")
     (simp_all add: tasks_done_def steps_left_def main_step_def run_defs
        split: option.splits)

lemma main_returned:
  assumes "pcs_ok env cfg s" "tasks_done s" "steps_left s = 0" "open_result env = None"
    and "0 <s TicksPerSecond cfg"
    and "writer_task env cfg = Returned wErr" "reader_task env cfg = Returned rErr"
  shows "Run_result s
     = Some (case wErr of
               Some e \<Rightarrow> Some (Errorf ''write to pty'' e)
             | None \<Rightarrow> (case rErr of
                          Some e \<Rightarrow> Some (Errorf ''read from pty'' e)
                        | None \<Rightarrow> None))"
  using assms pos_int64 [OF assms(5)]
  by (cases "mpc s"; cases wErr; cases rErr)
     (simp_all add: tasks_done_def steps_left_def Run_result_def run_defs)

lemma to_completion_returns:
  assumes "pcs_ok env cfg s" "\<not> crashed s" "open_result env = None"
    and "0 <s TicksPerSecond cfg"
    and "writer_task env cfg = Returned wErr" "reader_task env cfg = Returned rErr"
  shows "Run_result (foldl (step env cfg) s to_completion)
     = Some (case wErr of
               Some e \<Rightarrow> Some (Errorf ''write to pty'' e)
             | None \<Rightarrow> (case rErr of
                          Some e \<Rightarrow> Some (Errorf ''read from pty'' e)
                        | None \<Rightarrow> None))"
proof -
  define s1 where "s1 = main_step env cfg s"
  define s2 where "s2 = writer_step env cfg s1"
  define s3 where "s3 = reader_step env cfg s2"
  define s4 where "s4 = main_step env cfg s3"
  define s5 where "s5 = main_step env cfg s4"
  define s6 where "s6 = main_step env cfg s5"
  define s7 where "s7 = main_step env cfg s6"
  define s8 where "s8 = main_step env cfg s7"
  have p1: "pcs_ok env cfg s1" unfolding s1_def by (rule pcs_ok_main [OF assms(1)])
  have p2: "pcs_ok env cfg s2" unfolding s2_def by (rule pcs_ok_writer [OF p1])
  have p3: "pcs_ok env cfg s3" unfolding s3_def by (rule pcs_ok_reader [OF p2])
  have p4: "pcs_ok env cfg s4" unfolding s4_def by (rule pcs_ok_main [OF p3])
  have p5: "pcs_ok env cfg s5" unfolding s5_def by (rule pcs_ok_main [OF p4])
  have p6: "pcs_ok env cfg s6" unfolding s6_def by (rule pcs_ok_main [OF p5])
  have p7: "pcs_ok env cfg s7" unfolding s7_def by (rule pcs_ok_main [OF p6])
  have p8: "pcs_ok env cfg s8" unfolding s8_def by (rule pcs_ok_main [OF p7])
  have c1: "\<not> crashed s1" and m1: "mpc s1 \<noteq> M_Start"
    using main_starts [OF assms(1,2,4)] by (simp_all add: s1_def)
  have c2: "\<not> crashed s2" and m2: "mpc s2 \<noteq> M_Start" and w2: "wpc s2 \<noteq> W_Write"
    using writer_returns [OF c1 m1 assms(5)] by (simp_all add: s2_def)
  have d3: "tasks_done s3"
    unfolding s3_def by (rule reader_returns [OF c2 m2 w2 assms(6)])
  have d4: "tasks_done s4" and l4: "steps_left s4 \<le> steps_left s3 - 1"
    using main_advances [OF p3 d3 assms(4)] by (simp_all add: s4_def)
  have d5: "tasks_done s5" and l5: "steps_left s5 \<le> steps_left s4 - 1"
    using main_advances [OF p4 d4 assms(4)] by (simp_all add: s5_def)
  have d6: "tasks_done s6" and l6: "steps_left s6 \<le> steps_left s5 - 1"
    using main_advances [OF p5 d5 assms(4)] by (simp_all add: s6_def)
  have d7: "tasks_done s7" and l7: "steps_left s7 \<le> steps_left s6 - 1"
    using main_advances [OF p6 d6 assms(4)] by (simp_all add: s7_def)
  have d8: "tasks_done s8" and l8: "steps_left s8 \<le> steps_left s7 - 1"
    using main_advances [OF p7 d7 assms(4)] by (simp_all add: s8_def)
  have "steps_left s3 \<le> 5" by (simp add: steps_left_def split: main_pc.splits)
  then have l0: "steps_left s8 = 0" using l4 l5 l6 l7 l8 by arith
  have run: "foldl (step env cfg) s to_completion = s8"
    using assms(2) c1 c2 d3 d4 d5 d6 d7
    by (simp add: to_completion_def step_def tasks_done_def
          s1_def [symmetric] s2_def [symmetric] s3_def [symmetric] s4_def [symmetric]
          s5_def [symmetric] s6_def [symmetric] s7_def [symmetric] s8_def [symmetric])
  show ?thesis
    unfolding run by (rule main_returned [OF p8 d8 l0 assms(3,4,5,6)])
qed

section \<open>The result of Run\<close>

text \<open>
  C4. \<^verbatim>\<open>Run\<close> receives the writer's completion before the reader's, in every schedule.
  Whenever it has returned after opening the session, its result is the writer's error
  wrapped as \<^verbatim>\<open>write to pty\<close> if the writer failed (also when the reader failed too),
  else the reader's error wrapped as \<^verbatim>\<open>read from pty\<close> if the reader failed, else nil;
  it returns only after the writer's completion was received. And it does return: when
  the ticker can be made and the two tasks return \<open>w\<close> and \<open>rd\<close>, then after any
  schedule \<open>sched\<close>, letting the goroutines run on (\<open>to_completion\<close>) ends in the return
  of exactly that result.
\<close>

theorem error_precedence:
  "(open_result env = None \<and> Run_result (Run env cfg sched) = Some r \<longrightarrow>
      (case writer_task env cfg of
         Returned (Some wErr) \<Rightarrow> r = Some (Errorf ''write to pty'' wErr)
       | Returned None \<Rightarrow>
           (case reader_task env cfg of
              Returned (Some rErr) \<Rightarrow> r = Some (Errorf ''read from pty'' rErr)
            | Returned None \<Rightarrow> r = None
            | _ \<Rightarrow> False)
       | _ \<Rightarrow> False)
      \<and> Received WriterTask \<in> set (trace (Run env cfg sched))
      \<and> precedes (\<lambda>e. e = Received WriterTask) (\<lambda>e. e = Received ReaderTask)
           (trace (Run env cfg sched)))
   \<and> (open_result env = None \<and> 0 <s TicksPerSecond cfg
        \<and> writer_task env cfg = Returned w \<and> reader_task env cfg = Returned rd \<longrightarrow>
      Run_result (Run env cfg (sched @ to_completion))
        = Some (case w of
                  Some e \<Rightarrow> Some (Errorf ''write to pty'' e)
                | None \<Rightarrow> (case rd of
                             Some e \<Rightarrow> Some (Errorf ''read from pty'' e)
                           | None \<Rightarrow> None)))"
proof (intro conjI impI)
  let ?s = "Run env cfg sched"
  assume a: "open_result env = None \<and> Run_result (Run env cfg sched) = Some r"
  have m: "mpc ?s = M_Returned r"
    using a by (simp add: Run_result_def split: main_pc.splits)
  have fin: "finished env cfg ?s r"
    using invs(1) [of env cfg sched] m a by (simp add: pcs_ok_def)
  show "(case writer_task env cfg of
            Returned (Some wErr) \<Rightarrow> r = Some (Errorf ''write to pty'' wErr)
          | Returned None \<Rightarrow>
              (case reader_task env cfg of
                 Returned (Some rErr) \<Rightarrow> r = Some (Errorf ''read from pty'' rErr)
               | Returned None \<Rightarrow> r = None
               | _ \<Rightarrow> False)
          | _ \<Rightarrow> False)"
    using fin by (auto simp: finished_def split: outcome.splits option.splits)
  have "wpc ?s = W_Gone" using fin by (simp add: finished_def)
  then show "Received WriterTask \<in> set (trace ?s)"
    using invs(2) [of env cfg sched] by (simp add: members_ok_def)
  show "precedes (\<lambda>e. e = Received WriterTask) (\<lambda>e. e = Received ReaderTask) (trace ?s)"
    using invs(3) [of cfg env sched] by (simp add: order_ok_def)
next
  let ?s = "Run env cfg sched"
  assume a: "open_result env = None \<and> 0 <s TicksPerSecond cfg
        \<and> writer_task env cfg = Returned w \<and> reader_task env cfg = Returned rd"
  then have o: "open_result env = None" and t: "0 <s TicksPerSecond cfg"
    and wt: "writer_task env cfg = Returned w" and rt: "reader_task env cfg = Returned rd"
    by simp_all
  have "\<not> TicksPerSecond cfg \<le>s 0" using pos_int64 [OF t] by simp
  then have c: "\<not> crashed ?s"
    using crash_ok_Run [of env cfg sched] wt rt by (simp add: crash_ok_def is_panicked_def)
  have "Run env cfg (sched @ to_completion) = foldl (step env cfg) ?s to_completion"
    by (simp add: Run_def)
  then show "Run_result (Run env cfg (sched @ to_completion))
        = Some (case w of
                  Some e \<Rightarrow> Some (Errorf ''write to pty'' e)
                | None \<Rightarrow> (case rd of
                             Some e \<Rightarrow> Some (Errorf ''read from pty'' e)
                           | None \<Rightarrow> None))"
    using to_completion_returns [OF invs(1) [of env cfg sched] c o t wt rt] by simp
qed

theorem error_precedence_witness:
  "open_result broken_env = None \<and> 0 <s TicksPerSecond ex_cfg
   \<and> writer_task broken_env ex_cfg = Returned (Some (Failure ''broken pipe''))
   \<and> reader_task broken_env ex_cfg = Returned (Some (Failure ''connection reset''))
   \<and> Run_result (Run broken_env ex_cfg ([ReaderT, MainT] @ to_completion))
     = Some (Some (Errorf ''write to pty'' (Failure ''broken pipe'')))
   \<and> Received WriterTask
       \<in> set (trace (Run broken_env ex_cfg ([ReaderT, MainT] @ to_completion)))
   \<and> writer_task reader_broken_env ex_cfg = Returned None
   \<and> reader_task reader_broken_env ex_cfg = Returned (Some (Failure ''connection reset''))
   \<and> Run_result (Run reader_broken_env ex_cfg ([MainT, ReaderT, ReaderT] @ to_completion))
     = Some (Some (Errorf ''read from pty'' (Failure ''connection reset'')))
   \<and> writer_task echo_env ex_cfg = Returned None
   \<and> reader_task echo_env ex_cfg = Returned None
   \<and> Run_result (Run echo_env ex_cfg ([] @ to_completion)) = Some None"
proof -
  have t: "0 <s TicksPerSecond ex_cfg" by (simp add: ex_cfg_def word_sless_alt)
  have o1: "open_result broken_env = None" by (simp add: broken_env_def)
  have w1: "writer_task broken_env ex_cfg = Returned (Some (Failure ''broken pipe''))"
    by code_simp
  have r1: "reader_task broken_env ex_cfg = Returned (Some (Failure ''connection reset''))"
    by code_simp
  have o2: "open_result reader_broken_env = None" by (simp add: reader_broken_env_def)
  have w2: "writer_task reader_broken_env ex_cfg = Returned None" by code_simp
  have r2: "reader_task reader_broken_env ex_cfg
              = Returned (Some (Failure ''connection reset''))"
    by code_simp
  have o3: "open_result echo_env = None" by (simp add: echo_env_def)
  have w3: "writer_task echo_env ex_cfg = Returned None" by code_simp
  have r3: "reader_task echo_env ex_cfg = Returned None" by code_simp
  have p1: "Run_result (Run broken_env ex_cfg ([ReaderT, MainT] @ to_completion))
     = Some (Some (Errorf ''write to pty'' (Failure ''broken pipe'')))"
    using error_precedence [where env = broken_env and cfg = ex_cfg
        and sched = "[ReaderT, MainT]" and w = "Some (Failure ''broken pipe'')"
        and rd = "Some (Failure ''connection reset'')"] o1 t w1 r1
    by simp
  have p2: "Run_result (Run reader_broken_env ex_cfg ([MainT, ReaderT, ReaderT] @ to_completion))
     = Some (Some (Errorf ''read from pty'' (Failure ''connection reset'')))"
    using error_precedence [where env = reader_broken_env and cfg = ex_cfg
        and sched = "[MainT, ReaderT, ReaderT]" and w = None
        and rd = "Some (Failure ''connection reset'')"] o2 t w2 r2
    by simp
  have p3: "Run_result (Run echo_env ex_cfg ([] @ to_completion)) = Some None"
    using error_precedence [where env = echo_env and cfg = ex_cfg and sched = "[]"
        and w = None and rd = None] o3 t w3 r3
    by simp
  have rc: "Received WriterTask
       \<in> set (trace (Run broken_env ex_cfg ([ReaderT, MainT] @ to_completion)))"
    using error_precedence [where env = broken_env and cfg = ex_cfg
        and sched = "[ReaderT, MainT] @ to_completion"
        and r = "Some (Errorf ''write to pty'' (Failure ''broken pipe''))"] o1 p1
    by simp
  show ?thesis using t o1 w1 r1 p1 rc w2 r2 p2 w3 r3 p3 by simp
qed

section \<open>Closing the connection\<close>





section \<open>The first step of Run\<close>

lemma mpc_step_Start: "mpc (step env cfg s t) = M_Start \<Longrightarrow> mpc s = M_Start"
  by (cases t; cases "mpc s"; cases "wpc s"; cases "rpc s")
     (simp_all add: step_def main_step_def reader_step_def writer_step_def recv_writer_def
        recv_reader_def split: outcome.splits option.splits if_splits)

lemma main_leaves_Start:
  "pcs_ok env cfg s \<Longrightarrow> mpc s = M_Start \<Longrightarrow> mpc (step env cfg s MainT) \<noteq> M_Start"
  by (simp add: step_def main_step_def pcs_ok_def split: option.splits)

lemma Start_unscheduled: "mpc (Run env cfg sched) = M_Start \<Longrightarrow> MainT \<notin> set sched"
proof (induction sched rule: rev_induct)
  case Nil
  show ?case by simp
next
  case (snoc t sched)
  have before: "mpc (Run env cfg sched) = M_Start"
    using snoc.prems by (simp add: Run_snoc mpc_step_Start)
  have "t \<noteq> MainT"
    using snoc.prems main_leaves_Start [OF invs(1) before, of ] by (auto simp: Run_snoc)
  then show ?case using snoc.IH [OF before] by simp
qed

text \<open>
  C8, as the code has it. \<^verbatim>\<open>Run\<close> does not compare \<^verbatim>\<open>BytesPerSecond\<close> with
  \<^verbatim>\<open>TicksPerSecond\<close>: for every configuration with a non-zero \<^verbatim>\<open>TicksPerSecond\<close>,
  whatever \<^verbatim>\<open>BytesPerSecond\<close> is, the first thing \<^verbatim>\<open>Run\<close> does is to invoke the
  session-open collaborator, and it returns the connection error, wrapped, exactly when
  that open fails.
\<close>

theorem open_is_first:
  assumes "TicksPerSecond cfg \<noteq> 0" and "MainT \<in> set sched"
  shows "hd (trace (Run env cfg sched)) = ConnOpen
       \<and> ConnOpen \<in> set (trace (Run env cfg sched))
       \<and> (case open_result env of
            Some e \<Rightarrow> Run_result (Run env cfg sched)
                        = Some (Some (Errorf ''connect to workspace'' e))
          | None \<Rightarrow> Run_result (Run env cfg sched)
                        \<noteq> Some (Some (Errorf ''connect to workspace'' e')))"
proof -
  let ?s = "Run env cfg sched"
  note p = invs(1) [of env cfg sched]
  note m = invs(2) [of env cfg sched]
  have started: "mpc ?s \<noteq> M_Start" using assms(2) Start_unscheduled by blast
  have ne: "trace ?s \<noteq> []" using m started assms(1) by (simp add: members_ok_def)
  then have h: "hd (trace ?s) = ConnOpen" using m by (simp add: members_ok_def)
  have mem: "ConnOpen \<in> set (trace ?s)" using ne h hd_in_set by metis
  have res: "(case open_result env of
            Some e \<Rightarrow> Run_result ?s = Some (Some (Errorf ''connect to workspace'' e))
          | None \<Rightarrow> Run_result ?s \<noteq> Some (Some (Errorf ''connect to workspace'' e')))"
  proof (cases "open_result env")
    case (Some e)
    then show ?thesis
      using p started assms(1)
      by (cases "mpc ?s") (auto simp: pcs_ok_def Run_result_def normal_def)
  next
    case None
    have "r \<noteq> Some (Errorf ''connect to workspace'' e')" if fin: "finished env cfg ?s r" for r
    proof (cases "writer_task env cfg")
      case (Returned w)
      show ?thesis
      proof (cases w)
        case (Some we)
        then show ?thesis using fin Returned by (simp add: finished_def)
      next
        case wn: None
        then obtain rr where "r = map_option (Errorf ''read from pty'') rr"
          using fin Returned by (auto simp: finished_def split: outcome.splits)
        then show ?thesis by (cases rr) simp_all
      qed
    qed (use fin in \<open>simp_all add: finished_def\<close>)
    then show ?thesis
      using None p by (cases "mpc ?s") (auto simp: pcs_ok_def Run_result_def)
  qed
  show ?thesis using h mem res by simp
qed

theorem open_is_first_witness:
  "BytesPerSecond low_cfg <s TicksPerSecond low_cfg \<and> bytesPerTick low_cfg = 0
   \<and> hd (trace (Run deadline_first_env low_cfg main_first)) = ConnOpen
   \<and> Run_result (Run no_conn_env low_cfg main_first)
       = Some (Some (Errorf ''connect to workspace'' (Failure ''dial failed'')))"
proof -
  have t: "TicksPerSecond low_cfg \<noteq> 0" by (simp add: low_cfg_def)
  have s: "MainT \<in> set main_first" by (simp add: main_first_def)
  have b: "BytesPerSecond low_cfg <s TicksPerSecond low_cfg \<and> bytesPerTick low_cfg = 0"
    by (simp add: low_cfg_def bytesPerTick_def word_sless_alt signed_divide_int_def)
  have o: "open_result no_conn_env = Some (Failure ''dial failed'')"
    by (simp add: no_conn_env_def)
  from open_is_first [OF t s, of deadline_first_env]
       open_is_first [OF t s, of no_conn_env] o b
  show ?thesis by simp
qed

text \<open>
  C8 as stated fails: with 1 byte per second and 2 ticks per second (0 bytes per tick)
  \<^verbatim>\<open>Run\<close> opens the session and, the deadline coming before the first tick, returns nil.
\<close>

theorem reject_low_rate_counterexample:
  "BytesPerSecond low_cfg <s TicksPerSecond low_cfg \<and> bytesPerTick low_cfg = 0
   \<and> trace (Run deadline_first_env low_cfg main_first)
       = [ConnOpen, TaskReturned WriterTask None, TaskReturned ReaderTask None,
          Received WriterTask, Received ReaderTask, LoadBytesWritten, LoadBytesRead,
          ConnClose DeferredClose, RunReturned None, ConnClose ReaderClose]
   \<and> Run_result (Run deadline_first_env low_cfg main_first) = Some None"
proof -
  have b: "BytesPerSecond low_cfg <s TicksPerSecond low_cfg \<and> bytesPerTick low_cfg = 0"
    by (simp add: low_cfg_def bytesPerTick_def word_sless_alt signed_divide_int_def)
  have t: "trace (Run deadline_first_env low_cfg main_first)
       = [ConnOpen, TaskReturned WriterTask None, TaskReturned ReaderTask None,
          Received WriterTask, Received ReaderTask, LoadBytesWritten, LoadBytesRead,
          ConnClose DeferredClose, RunReturned None, ConnClose ReaderClose]"
    by code_simp
  have r: "Run_result (Run deadline_first_env low_cfg main_first) = Some None"
    by code_simp
  show ?thesis using b t r by simp
qed

section \<open>The order of events\<close>

text \<open>
  C9, as the code has it. In every execution of \<^verbatim>\<open>Run\<close>, both tasks have returned
  before the final reads of \<^verbatim>\<open>BytesWritten\<close> and \<^verbatim>\<open>BytesRead\<close> and before the close
  of line 103; with a positive tick interval the writer task has returned before any
  close, and so has the reader task unless the writer task fails; and when the results
  are reported, the final reads come before the deferred close.
\<close>

theorem run_ordering:
  "precedes (is_returned WriterTask) is_load (trace (Run env cfg sched))
   \<and> precedes (is_returned ReaderTask) is_load (trace (Run env cfg sched))
   \<and> precedes (is_returned WriterTask) (\<lambda>e. e = ConnClose ReaderClose) (trace (Run env cfg sched))
   \<and> precedes (is_returned ReaderTask) (\<lambda>e. e = ConnClose ReaderClose) (trace (Run env cfg sched))
   \<and> (0 <s TicksPerSecond cfg \<longrightarrow>
        precedes (is_returned WriterTask) is_close (trace (Run env cfg sched)))
   \<and> (0 <s TicksPerSecond cfg \<and> (\<forall>e. writer_task env cfg \<noteq> Returned (Some e)) \<longrightarrow>
        precedes (is_returned ReaderTask) is_close (trace (Run env cfg sched)))
   \<and> (list_ex is_load (trace (Run env cfg sched)) \<longrightarrow>
        precedes (\<lambda>e. e = LoadBytesRead) (\<lambda>e. e = ConnClose DeferredClose)
          (trace (Run env cfg sched)))"
  using invs(3) [of cfg env sched] close_ok_Run [of env cfg sched]
  by (auto simp: order_ok_def close_ok_def)

theorem run_ordering_witness:
  "0 <s TicksPerSecond ex_cfg
   \<and> list_ex is_load (trace (Run echo_env ex_cfg reader_first))
   \<and> writer_task echo_env ex_cfg = Returned None
   \<and> closes (trace (Run echo_env ex_cfg reader_first)) = 2
   \<and> precedes (is_returned WriterTask) is_close (trace (Run echo_env ex_cfg reader_first))
   \<and> precedes (is_returned ReaderTask) is_close (trace (Run echo_env ex_cfg reader_first))
   \<and> precedes (\<lambda>e. e = LoadBytesRead) (\<lambda>e. e = ConnClose DeferredClose)
        (trace (Run echo_env ex_cfg reader_first))
   \<and> writer_task reader_broken_env ex_cfg = Returned None
   \<and> closes (trace (Run reader_broken_env ex_cfg to_completion)) = 1
   \<and> precedes (is_returned ReaderTask) is_close
        (trace (Run reader_broken_env ex_cfg to_completion))"
proof -
  have t: "0 <s TicksPerSecond ex_cfg" by (simp add: ex_cfg_def word_sless_alt)
  have l: "list_ex is_load (trace (Run echo_env ex_cfg reader_first))" by code_simp
  have w: "writer_task echo_env ex_cfg = Returned None" by code_simp
  have c: "closes (trace (Run echo_env ex_cfg reader_first)) = 2" by code_simp
  have w2: "writer_task reader_broken_env ex_cfg = Returned None" by code_simp
  have c2: "closes (trace (Run reader_broken_env ex_cfg to_completion)) = 1" by code_simp
  from run_ordering [of echo_env ex_cfg reader_first]
    run_ordering [of reader_broken_env ex_cfg to_completion] t l w c w2 c2
  show ?thesis by simp
qed

text \<open>
  C9 as stated fails twice. On normal completion \<^verbatim>\<open>Run\<close> may read both counters before
  any close is invoked (the close of line 103 is not ordered with the reads, the deferred
  close follows them). And when the writer fails, the deferred close is invoked although
  the reader task has not returned.
\<close>

theorem close_before_reads_counterexample:
  "trace (Run echo_env ex_cfg main_first)
     = [ConnOpen, TaskReturned WriterTask None, TaskReturned ReaderTask None,
        Received WriterTask, Received ReaderTask, LoadBytesWritten, LoadBytesRead,
        ConnClose DeferredClose, RunReturned None, ConnClose ReaderClose]
   \<and> \<not> precedes is_close is_load (trace (Run echo_env ex_cfg main_first))
   \<and> trace (Run broken_env ex_cfg [MainT, WriterT, MainT, MainT])
     = [ConnOpen, TaskReturned WriterTask (Some (Failure ''broken pipe'')), Received WriterTask,
        ConnClose DeferredClose,
        RunReturned (Some (Errorf ''write to pty'' (Failure ''broken pipe'')))]
   \<and> \<not> precedes (is_returned ReaderTask) is_close
         (trace (Run broken_env ex_cfg [MainT, WriterT, MainT, MainT]))"
  by code_simp

section \<open>A failing generator\<close>

lemma writer_never_returns_rand_error:
  assumes "\<forall>k. \<exists>e. gen k (sint (sz - 1)) = Inl e"
  shows "fst (writeRandomData gen marshal sz st evs) \<noteq> Returned (Some err)"
proof (induction evs arbitrary: st)
  case Nil
  then show ?case by simp
next
  case (Cons ev evs)
  show ?case
  proof (cases ev)
    case (CtxFire e)
    then show ?thesis using Cons.IH by simp
  next
    case SelDone
    then show ?thesis using Cons.IH by simp
  next
    case (SelTick cevs)
    obtain e where "gen (ticks st) (sint (sz - 1)) = Inl e" using assms by blast
    then show ?thesis using SelTick by (simp add: mustRandStr_def)
  qed
qed

lemma panicked_writer_sends_nothing:
  assumes "writer_task env cfg = Panicked p"
  shows "\<not> list_ex (is_returned WriterTask) (trace (Run env cfg sched))
       \<and> Received WriterTask \<notin> set (trace (Run env cfg sched))
       \<and> (open_result env = None \<longrightarrow> Run_result (Run env cfg sched) = None)"
proof -
  let ?s = "Run env cfg sched"
  note p = invs(1) [of env cfg sched]
  note m = invs(2) [of env cfg sched]
  have w: "wpc ?s = W_Idle \<or> wpc ?s = W_Write"
    using p assms
    by (cases "mpc ?s"; cases "wpc ?s")
       (simp_all add: pcs_ok_def idle_def w_running_def normal_def finished_def
          split: option.splits)
  have r: "Run_result ?s = None" if "open_result env = None"
    using p assms that
    by (cases "mpc ?s") (auto simp: pcs_ok_def Run_result_def finished_def)
  have m1: "list_ex (is_returned WriterTask) (trace ?s) \<longleftrightarrow> (wpc ?s \<noteq> W_Idle \<and> wpc ?s \<noteq> W_Write)"
    using m unfolding members_ok_def by (elim conjE)
  have m2: "Received WriterTask \<in> set (trace ?s) \<longleftrightarrow> wpc ?s = W_Gone"
    using m unfolding members_ok_def by (elim conjE)
  have "\<not> list_ex (is_returned WriterTask) (trace ?s)" using w m1 by auto
  moreover have "Received WriterTask \<notin> set (trace ?s)" using w m2 by auto
  ultimately show ?thesis using r by simp
qed

text \<open>
  C10. When the generator fails for the length asked (\<open>Inl\<close>), the writer panics on the
  tick, through \<open>mustRandStr\<close>; with a generator that fails at every call for that length
  (as for the negative length \<open>bytesPerTick - 1\<close> of \<open>bytesPerTick = 0\<close>) the writer
  never returns an error, on any timeline. In \<^verbatim>\<open>Run\<close> a writer that panics never sends on
  its completion channel: nothing is received from it and \<^verbatim>\<open>Run\<close> returns no result.
\<close>

theorem rand_failure_panics:
  "(gen (ticks st) (sint (sz - 1)) = Inl e \<longrightarrow>
      writeRandomData gen marshal sz st (SelTick cevs # evs) = (Panicked e, st))
   \<and> ((\<forall>k. \<exists>e. gen k (sint (sz - 1)) = Inl e) \<longrightarrow>
        fst (writeRandomData gen marshal sz st evs) \<noteq> Returned (Some err))
   \<and> (writer_task env cfg = Panicked p \<longrightarrow>
        \<not> list_ex (is_returned WriterTask) (trace (Run env cfg sched))
      \<and> Received WriterTask \<notin> set (trace (Run env cfg sched))
      \<and> (open_result env = None \<longrightarrow> Run_result (Run env cfg sched) = None))"
  using writer_never_returns_rand_error [of gen sz marshal st evs err]
    panicked_writer_sends_nothing [of env cfg p sched]
  by (simp add: mustRandStr_def)

theorem rand_failure_panics_witness:
  "letters 0 (sint (bytesPerTick low_cfg - 1)) = Inl (Failure ''cryptorand: negative length'')
   \<and> writeRandomData letters json_frame (bytesPerTick low_cfg) new_writer [SelTick []]
       = (Panicked (Failure ''cryptorand: negative length''), new_writer)
   \<and> writer_task tick_first_env low_cfg = Panicked (Failure ''cryptorand: negative length'')
   \<and> crashed (Run tick_first_env low_cfg main_first)
   \<and> Received WriterTask \<notin> set (trace (Run tick_first_env low_cfg main_first))
   \<and> Run_result (Run tick_first_env low_cfg main_first) = None"
proof -
  have b: "bytesPerTick low_cfg = 0"
    by (simp add: low_cfg_def bytesPerTick_def signed_divide_int_def)
  have g: "letters (ticks new_writer) (sint (bytesPerTick low_cfg - 1))
             = Inl (Failure ''cryptorand: negative length'')"
    by (simp add: b letters_def rand_from_def)
  have t: "ticks new_writer = 0" by (simp add: new_writer_def)
  have w: "writer_task tick_first_env low_cfg = Panicked (Failure ''cryptorand: negative length'')"
    by code_simp
  have c: "crashed (Run tick_first_env low_cfg main_first)" by code_simp
  have o: "open_result tick_first_env = None" by (simp add: tick_first_env_def)
  from rand_failure_panics [of letters new_writer "bytesPerTick low_cfg"
         "Failure ''cryptorand: negative length''" json_frame "[]" "[]" _ tick_first_env low_cfg
         "Failure ''cryptorand: negative length''" main_first]
       g t w c o
  show ?thesis by simp
qed

section \<open>Cancellation by the caller\<close>

text \<open>
  C6 at its failing input. The caller cancels after the first byte of a payload: the
  \<open>Write\<close> of the next byte returns \<^verbatim>\<open>context.Canceled\<close>, which \<open>copyContext\<close>
  returns as an error (it makes an exception of \<^verbatim>\<open>io.EOF\<close> and of
  \<^verbatim>\<open>context.DeadlineExceeded\<close> only), and \<^verbatim>\<open>Run\<close> reports a write failure. The same
  timeline with the deadline in place of the caller's cancellation ends in nil, and so does
  a cancellation seen by a select.
\<close>

theorem cancel_between_writes:
  "fst (writeRandomData letters json_frame 2 new_writer [SelTick [WriteRet 1 None, Fire Canceled]])
     = Returned (Some Canceled)
   \<and> fst (writeRandomData letters json_frame 2 new_writer
           [SelTick [WriteRet 1 None, Fire DeadlineExceeded], SelDone])
     = Returned None
   \<and> fst (writeRandomData letters json_frame 2 new_writer [CtxFire Canceled, SelTick [], SelDone])
     = Returned None
   \<and> writer_task cancel_env ex_cfg = Returned (Some Canceled)
   \<and> reader_task cancel_env ex_cfg = Returned None
   \<and> Run_result (Run cancel_env ex_cfg main_first) = Some (Some (Errorf ''write to pty'' Canceled))"
  by code_simp

section \<open>The deadline\<close>

lemma write_each_quiet:
  assumes "list_all quiet_cev evs" "deadline_ctx c"
    and "write_each c w src cnt evs = (c', w', res)"
  shows "deadline_ctx c' \<and> (res = None \<or> (\<exists>n. res = Some (n, None)))"
  using assms
proof (induction c w src cnt evs arbitrary: c' w' res rule: write_each.induct)
  case (1 c w count evs)
  then show ?case by auto
next
  case (2 c w b src count evs)
  show ?case
  proof (cases c)
    case (Some e)
    then have "e = DeadlineExceeded" using "2.prems"(2) by (simp add: deadline_ctx_def)
    then show ?thesis
      using Some "2.prems" by (auto simp: Write_def write_failed_def deadline_ctx_def)
  next
    case None
    show ?thesis
    proof (cases evs)
      case Nil
      then show ?thesis using None "2.prems" by auto
    next
      case (Cons ev evs')
      show ?thesis
      proof (cases ev)
        case (Fire e)
        then have e: "e = DeadlineExceeded" using "2.prems"(1) Cons by simp
        have "list_all quiet_cev evs'" using "2.prems"(1) Cons by simp
        moreover have "deadline_ctx (Some e)" using e by (simp add: deadline_ctx_def)
        moreover have "write_each (Some e) w (b # src) count evs' = (c', w', res)"
          using "2.prems"(3) None Cons Fire by simp
        ultimately show ?thesis using "2.IH"(1) [OF None Cons Fire] by blast
      next
        case (WriteRet n0 err0)
        have q: "list_all quiet_cev evs'" using "2.prems"(1) Cons by simp
        have e0: "err0 = None \<or> err0 = Some EOF" using "2.prems"(1) Cons WriteRet by simp
        show ?thesis
        proof (cases err0)
          case err: None
          let ?w1 = "w\<lparr>bytesWritten := bytesWritten w + word_of_int n0\<rparr>"
          have wr: "Write w (Stream n0 err0) = (?w1, n0, None)" using err by (simp add: Write_def)
          have p1: "(?w1, (n0, None)) = Write w (Stream n0 err0)" using wr by simp
          have rec: "write_each c ?w1 src (count + n0) evs' = (c', w', res)"
            using "2.prems"(3) None Cons WriteRet wr by simp
          show ?thesis
            by (rule "2.IH"(2) [OF None Cons WriteRet p1 refl refl q "2.prems"(2) rec])
        next
          case (Some e)
          then have "e = EOF" using e0 by simp
          then show ?thesis
            using "2.prems"(2,3) None Cons WriteRet Some
            by (auto simp: Write_def write_failed_def)
        qed
      qed
    qed
  qed
qed

lemma copyContext_quiet:
  assumes "list_all quiet_cev evs" "deadline_ctx c"
    and "copyContext c w src evs = (c', w', res)"
  shows "deadline_ctx c' \<and> (res = None \<or> (\<exists>n. res = Some (n, None)))"
proof (cases c)
  case None
  then show ?thesis using assms write_each_quiet [of evs c w src 0 c' w' res]
    by (simp add: copyContext_def)
next
  case (Some e)
  then show ?thesis using assms by (auto simp: copyContext_def)
qed

text \<open>
  For the writer the deadline is a clean stop: on a timeline on which only the deadline
  ends the run, with a generator and a serialiser that do not fail, \<open>writeRandomData\<close>
  never returns an error. And \<open>drainContext\<close> returns nil whenever its select takes
  \<^verbatim>\<open>ctx.Done()\<close>.
\<close>

lemma writer_clean_on_deadline:
  assumes "list_all quiet_wev evs" and "deadline_ctx (ctx_err st)"
    and "\<forall>k. \<exists>s. gen k (sint (sz - 1)) = Inr s"
    and "\<forall>req. \<exists>data. marshal req = Inr data"
  shows "fst (writeRandomData gen marshal sz st evs) = Blocked
       \<or> fst (writeRandomData gen marshal sz st evs) = Returned None"
  using assms(1,2)
proof (induction evs arbitrary: st)
  case Nil
  then show ?case by simp
next
  case (Cons ev evs)
  have q: "list_all quiet_wev evs" using Cons.prems(1) by simp
  show ?case
  proof (cases ev)
    case (CtxFire e)
    then have "e = DeadlineExceeded" using Cons.prems(1) by simp
    then have "deadline_ctx (ctx_err (st\<lparr>ctx_err := cancel (ctx_err st) e\<rparr>))"
      using Cons.prems(2) by (auto simp: deadline_ctx_def cancel_def)
    then show ?thesis using CtxFire Cons.IH [OF q] by simp
  next
    case SelDone
    then show ?thesis using Cons.IH [OF q Cons.prems(2)] by simp
  next
    case (SelTick cevs)
    obtain s where g: "gen (ticks st) (sint (sz - 1)) = Inr s" using assms(3) by blast
    let ?req = "\<lparr>Data = CHR ''#'' # s\<rparr>"
    let ?st1 = "st\<lparr>ticks := Suc (ticks st), requests := requests st @ [?req]\<rparr>"
    obtain data where m: "marshal ?req = Inr data" using assms(4) by blast
    obtain c w res where cp: "copyContext (ctx_err ?st1) (meter ?st1) data cevs = (c, w, res)"
      by (cases "copyContext (ctx_err ?st1) (meter ?st1) data cevs") auto
    have qc: "list_all quiet_cev cevs" using Cons.prems(1) SelTick by simp
    have dc: "deadline_ctx (ctx_err ?st1)" using Cons.prems(2) by simp
    note cq = copyContext_quiet [OF qc dc cp]
    let ?st2 = "?st1\<lparr>ctx_err := c, meter := w\<rparr>"
    show ?thesis
    proof (cases res)
      case None
      then show ?thesis using SelTick g m cp by (simp add: mustRandStr_def)
    next
      case (Some nr)
      then obtain n where nr: "res = Some (n, None)" using cq by auto
      have "deadline_ctx (ctx_err ?st2)" using cq by simp
      then show ?thesis
        using SelTick g m cp nr Cons.IH [OF q, of ?st2] by (simp add: mustRandStr_def)
    qed
  qed
qed

lemma drain_takes_done:
  "d_ctx st \<noteq> None \<Longrightarrow>
   drainContext bufSize st (DSelDone # evs) = (Returned None, st\<lparr>done_closed := True\<rparr>)"
  by auto

text \<open>
  C1 at its failing input. The deadline has passed and the stream never fails. The reading
  goroutine's \<open>Read\<close> returns the context's \<^verbatim>\<open>DeadlineExceeded\<close>; when the select of
  \<open>drainContext\<close> takes that error from \<^verbatim>\<open>errCh\<close> rather than \<^verbatim>\<open>ctx.Done()\<close>,
  \<open>drainContext\<close> returns it and \<^verbatim>\<open>Run\<close> reports a read failure. When the select
  takes \<^verbatim>\<open>ctx.Done()\<close> the result is nil.
\<close>

theorem deadline_race:
  "writer_task race_env short_cfg = Returned None
   \<and> reader_task race_env short_cfg = Returned (Some DeadlineExceeded)
   \<and> Run_result (Run race_env short_cfg main_first)
       = Some (Some (Errorf ''read from pty'' DeadlineExceeded))
   \<and> fst (drainContext (bytesPerTick short_cfg * 2) new_drain
            [DCtxFire DeadlineExceeded, DInner 0 None, DSelDone])
       = Returned None"
  by code_simp

end
